theory Spec2Isabelle
  imports Complex_Main "HOL-Library.AList"
begin

section \<open>JavaScript numbers as far as the timing code needs them\<close>

text \<open>
  The timing code of \<^verbatim>\<open>finishPerf\<close> works on the field \<^verbatim>\<open>elapsed\<close> of a metric object,
  which is a JavaScript number or \<^verbatim>\<open>undefined\<close>. Numbers are modelled as reals (exact
  arithmetic instead of IEEE doubles); \<^verbatim>\<open>undefined\<close> and \<^verbatim>\<open>NaN\<close> are values of their own, so
  that the truthiness tests and the \<^verbatim>\<open>|| 0\<close> of the source are branches of the model.
  The infinities are not represented: a division by zero gives \<open>NaN\<close> here, and every
  theorem below that divides assumes a non-zero divisor.
\<close>

datatype jsnum = Undefined | NaN | Num real

fun truthy :: "jsnum \<Rightarrow> bool" where
  "truthy (Num r) = (r \<noteq> 0)"
| "truthy Undefined = False"
| "truthy NaN = False"

fun js_sub :: "jsnum \<Rightarrow> jsnum \<Rightarrow> jsnum" where
  "js_sub (Num a) (Num b) = Num (a - b)"
| "js_sub _ _ = NaN"

fun js_add :: "jsnum \<Rightarrow> jsnum \<Rightarrow> jsnum" where
  "js_add (Num a) (Num b) = Num (a + b)"
| "js_add _ _ = NaN"

fun js_div :: "jsnum \<Rightarrow> jsnum \<Rightarrow> jsnum" where
  "js_div (Num a) (Num b) = (if b = 0 then NaN else Num (a / b))"
| "js_div _ _ = NaN"

text \<open>\<^verbatim>\<open>Math.max(0, x)\<close>\<close>

fun js_max0 :: "jsnum \<Rightarrow> jsnum" where
  "js_max0 (Num a) = Num (max 0 a)"
| "js_max0 _ = NaN"

text \<open>\<^verbatim>\<open>x || 0\<close>\<close>

definition js_or0 :: "jsnum \<Rightarrow> jsnum" where
  "js_or0 x = (if truthy x then x else Num 0)"

text \<open>The property of an elapsed value that matters below: a defined, non-negative number.\<close>

fun nonneg :: "jsnum \<Rightarrow> bool" where
  "nonneg (Num r) = (0 \<le> r)"
| "nonneg _ = False"

section \<open>The timing tracker\<close>

text \<open>
  A tracker is an object of the library pixl-perf: \<^verbatim>\<open>perf.perf\<close> maps a phase name to a
  metric \<^verbatim>\<open>{start, end, elapsed}\<close>, \<^verbatim>\<open>perf.counters\<close> maps a counter name to a number,
  \<^verbatim>\<open>perf.scale\<close> is the number of time units per second and \<^verbatim>\<open>perf.totalKey\<close> names the
  total phase. Time stamps are clock readings in seconds. The field \<^verbatim>\<open>end\<close> is called
  \<open>finish\<close> here.
\<close>

record metric =
  start :: "real option"
  finish :: "real option"
  elapsed :: jsnum

record tracker =
  perf :: "string \<rightharpoonup> metric"
  counters :: "string \<rightharpoonup> int"
  scale :: real
  totalKey :: string

datatype js_error = TypeError

text \<open>
  Two methods of pixl-perf that \<^verbatim>\<open>finishPerf\<close> calls; the library is a dependency and not
  part of the repository. \<^verbatim>\<open>count(id, amount)\<close> adds to a counter, creating it when it
  is new. \<^verbatim>\<open>end()\<close> without arguments closes the total phase: it stamps the end and sets
  the elapsed time to the time since the start in units of the scale (the library also
  rounds it down to three digits, which is left out); it does nothing when the total
  phase was never begun.
\<close>

definition count :: "string \<Rightarrow> int \<Rightarrow> tracker \<Rightarrow> tracker" where
  "count k amount P =
     P\<lparr>counters := (counters P)(k \<mapsto> (case counters P k of None \<Rightarrow> amount | Some c \<Rightarrow> c + amount))\<rparr>"

definition end_total :: "real \<Rightarrow> tracker \<Rightarrow> tracker" where
  "end_total now P =
     (case perf P (totalKey P) of
        None \<Rightarrow> P
      | Some m \<Rightarrow>
          (let st = (case start m of None \<Rightarrow> now | Some s \<Rightarrow> s)
           in P\<lparr>perf := (perf P)(totalKey P \<mapsto>
                 \<lparr>start = Some st, finish = Some now, elapsed = Num ((now - st) * scale P)\<rparr>)\<rparr>))"

subsection \<open>finishPerf\<close>

text \<open>
  \<^verbatim>\<open>if (p.a && p.b) p.a.elapsed -= p.b.elapsed\<close>: both metrics must exist.
\<close>

definition exclude :: "string \<Rightarrow> string \<Rightarrow> (string \<rightharpoonup> metric) \<Rightarrow> (string \<rightharpoonup> metric)" where
  "exclude a b p =
     (case (p a, p b) of
        (Some ma, Some mb) \<Rightarrow> p(a \<mapsto> ma\<lparr>elapsed := js_sub (elapsed ma) (elapsed mb)\<rparr>)
      | _ \<Rightarrow> p)"

text \<open>The five subtractions, in the order of the source (the innermost is the first).\<close>

definition subtract_phases :: "(string \<rightharpoonup> metric) \<Rightarrow> (string \<rightharpoonup> metric)" where
  "subtract_phases p =
     exclude ''connect'' ''dns''
       (exclude ''send'' ''connect''
         (exclude ''wait'' ''send''
           (exclude ''receive'' ''wait''
             (exclude ''decompress'' ''receive'' p))))"

text \<open>
  \<^verbatim>\<open>for (var key in p) { if (p[key].elapsed) p[key].elapsed = Math.max(0, p[key].elapsed); }\<close>
  The body touches \<^verbatim>\<open>p[key]\<close> only, so the loop is the pointwise map over the keys.
\<close>

definition clamp_metric :: "metric \<Rightarrow> metric" where
  "clamp_metric m = (if truthy (elapsed m) then m\<lparr>elapsed := js_max0 (elapsed m)\<rparr> else m)"

definition clamp_all :: "(string \<rightharpoonup> metric) \<Rightarrow> (string \<rightharpoonup> metric)" where
  "clamp_all p = (\<lambda>k. map_option clamp_metric (p k))"

text \<open>
  The body of the import loop for a key other than the total key: the metric is created
  when the new tracker has none, \<^verbatim>\<open>end\<close> is set to 1 when it is missing, a falsy
  \<^verbatim>\<open>elapsed\<close> becomes 0, and the old elapsed value, divided by the ratio of the scales, is
  added (\<^verbatim>\<open>|| 0\<close> when that quotient is falsy).
\<close>

definition import_phase :: "real \<Rightarrow> real \<Rightarrow> metric option \<Rightarrow> metric \<Rightarrow> metric" where
  "import_phase old_scale new_scale nm om =
     (let m0 = (case nm of None \<Rightarrow> \<lparr>start = None, finish = None, elapsed = Undefined\<rparr> | Some m \<Rightarrow> m);
          m1 = (if finish m0 = None then m0\<lparr>finish := Some 1\<rparr> else m0);
          m2 = (if \<not> truthy (elapsed m1) then m1\<lparr>elapsed := Num 0\<rparr> else m1)
      in m2\<lparr>elapsed := js_add (elapsed m2)
              (js_or0 (js_div (elapsed om) (js_div (Num old_scale) (Num new_scale))))\<rparr>)"

text \<open>
  The import of the phases of the previous tracker, guarded by
  \<^verbatim>\<open>old_perf.perf && old_perf.perf[perf.totalKey]\<close>. For the total key the start is
  copied into the new tracker's total metric; JavaScript throws a TypeError when the new
  tracker has no such metric.
\<close>

definition import_phases :: "tracker \<Rightarrow> tracker \<Rightarrow> js_error + tracker" where
  "import_phases P old =
     (case perf old (totalKey P) of
        None \<Rightarrow> Inr P
      | Some ot \<Rightarrow>
          (case perf P (totalKey P) of
             None \<Rightarrow> Inl TypeError
           | Some nt \<Rightarrow>
               Inr (P\<lparr>perf := (\<lambda>k.
                      case perf old k of
                        None \<Rightarrow> perf P k
                      | Some om \<Rightarrow>
                          if k = totalKey P then Some (nt\<lparr>start := start ot\<rparr>)
                          else Some (import_phase (scale old) (scale P) (perf P k) om))\<rparr>)))"

text \<open>\<^verbatim>\<open>for (var key in old_perf.counters) perf.count(key, old_perf.counters[key])\<close>\<close>

definition import_counters :: "tracker \<Rightarrow> tracker \<Rightarrow> tracker" where
  "import_counters P old =
     P\<lparr>counters := (\<lambda>k.
          case counters old k of
            None \<Rightarrow> counters P k
          | Some oc \<Rightarrow> Some (case counters P k of None \<Rightarrow> oc | Some c \<Rightarrow> c + oc))\<rparr>"

text \<open>
  \<^verbatim>\<open>finishPerf(perf, old_perf)\<close>; \<open>now\<close> is the clock reading at the call, which the
  final \<^verbatim>\<open>perf.end()\<close> takes.
\<close>

definition finishPerf :: "real \<Rightarrow> tracker \<Rightarrow> tracker option \<Rightarrow> js_error + tracker" where
  "finishPerf now P old_perf =
     (let P1 = P\<lparr>perf := clamp_all (subtract_phases (perf P))\<rparr>
      in case old_perf of
           None \<Rightarrow> Inr (end_total now (count ''requests'' 1 P1))
         | Some old \<Rightarrow>
             (case import_phases P1 old of
                Inl e \<Rightarrow> Inl e
              | Inr P2 \<Rightarrow> Inr (end_total now (count ''requests'' 1 (import_counters P2 old)))))"

subsection \<open>The chain of attempts and the notions of the timing properties\<close>

text \<open>
  \<^verbatim>\<open>request\<close> reads the previous tracker from \<^verbatim>\<open>options.perf\<close> and, before it calls itself
  for a retry or a redirect, stores \<^verbatim>\<open>self.finishPerf(perf, old_perf)\<close> there. Over a chain
  of attempts, each given by the clock reading at its end and its own tracker, the
  trackers are therefore folded from the first attempt on.
\<close>

fun finish_chain :: "tracker option \<Rightarrow> (real \<times> tracker) list \<Rightarrow> js_error + tracker option" where
  "finish_chain old_perf [] = Inr old_perf"
| "finish_chain old_perf ((now, P) # rest) =
     (case finishPerf now P old_perf of
        Inl e \<Rightarrow> Inl e
      | Inr R \<Rightarrow> finish_chain (Some R) rest)"

text \<open>
  A tracker as \<^verbatim>\<open>request\<close> hands it to \<^verbatim>\<open>finishPerf\<close>: every phase other than the total
  was closed by \<^verbatim>\<open>perf.end(key, start)\<close> and so carries a number, of either sign.
\<close>

definition recorded :: "tracker \<Rightarrow> bool" where
  "recorded P =
     (\<forall>k m. perf P k = Some m \<longrightarrow> k \<noteq> totalKey P \<longrightarrow> (\<exists>r. elapsed m = Num r))"

text \<open>Every phase of the tracker has an elapsed value that is a number and at least 0.\<close>

definition all_nonneg :: "tracker \<Rightarrow> bool" where
  "all_nonneg P = (\<forall>k m. perf P k = Some m \<longrightarrow> nonneg (elapsed m))"

text \<open>
  What an attempt has to look like for the timing properties: the total phase is called
  \<^verbatim>\<open>total\<close> (the source reads \<^verbatim>\<open>perf.perf.total.start\<close>) and was begun no later than the
  attempt ends, the scale is positive, and the phases are recorded.
\<close>

definition attempt_ok :: "real \<times> tracker \<Rightarrow> bool" where
  "attempt_ok a =
     (case a of (now, P) \<Rightarrow>
        recorded P \<and> totalKey P = ''total'' \<and> 0 < scale P \<and>
        (\<exists>t s. perf P ''total'' = Some t \<and> start t = Some s \<and> s \<le> now))"

text \<open>
  The elapsed value of a phase of the new tracker after the subtraction and the clamp,
  read as 0 when the phase is missing or its value is falsy.
\<close>

definition own_elapsed :: "tracker \<Rightarrow> string \<Rightarrow> real" where
  "own_elapsed P k =
     (case clamp_all (subtract_phases (perf P)) k of
        None \<Rightarrow> 0
      | Some m \<Rightarrow> (case elapsed m of Num r \<Rightarrow> r | _ \<Rightarrow> 0))"

text \<open>The start of the total phase of a tracker.\<close>

definition total_start :: "tracker \<Rightarrow> real option" where
  "total_start P = (case perf P ''total'' of None \<Rightarrow> None | Some t \<Rightarrow> start t)"

text \<open>
  Three concrete trackers with a scale of 1000 (milliseconds): a first attempt whose
  response arrived before the request was fully sent, so that the wait phase ends before
  the send phase; the attempt that follows it; and the first one as \<^verbatim>\<open>finishPerf\<close> leaves
  it.
\<close>

definition jitter_attempt :: tracker where
  "jitter_attempt =
     \<lparr>perf = [''total'' \<mapsto> \<lparr>start = Some 100, finish = None, elapsed = Undefined\<rparr>,
              ''send'' \<mapsto> \<lparr>start = Some 100, finish = Some 109, elapsed = Num 9000\<rparr>,
              ''wait'' \<mapsto> \<lparr>start = Some 100, finish = Some 105, elapsed = Num 5000\<rparr>],
      counters = [''retries'' \<mapsto> 1], scale = 1000, totalKey = ''total''\<rparr>"

definition second_attempt :: tracker where
  "second_attempt =
     \<lparr>perf = [''total'' \<mapsto> \<lparr>start = Some 120, finish = None, elapsed = Undefined\<rparr>,
              ''send'' \<mapsto> \<lparr>start = Some 120, finish = Some 122, elapsed = Num 2000\<rparr>,
              ''wait'' \<mapsto> \<lparr>start = Some 120, finish = Some 127, elapsed = Num 7000\<rparr>,
              ''receive'' \<mapsto> \<lparr>start = Some 120, finish = Some 128, elapsed = Num 8000\<rparr>],
      counters = Map.empty, scale = 1000, totalKey = ''total''\<rparr>"

definition finished_first :: tracker where
  "finished_first =
     \<lparr>perf = [''total'' \<mapsto> \<lparr>start = Some 100, finish = Some 120, elapsed = Num 20000\<rparr>,
              ''send'' \<mapsto> \<lparr>start = Some 100, finish = Some 109, elapsed = Num 9000\<rparr>,
              ''wait'' \<mapsto> \<lparr>start = Some 100, finish = Some 105, elapsed = Num 0\<rparr>],
      counters = [''retries'' \<mapsto> 1, ''requests'' \<mapsto> 1], scale = 1000, totalKey = ''total''\<rparr>"

section \<open>The address cache\<close>

text \<open>
  \<^verbatim>\<open>dns_cache\<close> is one object of the module, shared by all instances; it maps a host name
  to \<^verbatim>\<open>{ip, expires}\<close>. Time is in seconds. The lookup is the block
  \<^verbatim>\<open>if (this.dnsTTL && dns_cache[options.hostname]) { ... }\<close> of \<^verbatim>\<open>request\<close>: it returns
  the address to swap in, if any, and the cache after the possible eviction. The store
  is the block at the end of the socket's \<^verbatim>\<open>lookup\<close> handler.
\<close>

record dns_entry =
  ip :: string
  expires :: real

type_synonym dns_cache = "string \<rightharpoonup> dns_entry"

definition dns_lookup :: "real \<Rightarrow> real \<Rightarrow> string \<Rightarrow> dns_cache \<Rightarrow> string option \<times> dns_cache" where
  "dns_lookup dnsTTL now hostname cache =
     (if dnsTTL \<noteq> 0 then
        (case cache hostname of
           None \<Rightarrow> (None, cache)
         | Some obj \<Rightarrow>
             if expires obj > now then (Some (ip obj), cache)
             else (None, cache(hostname := None)))
      else (None, cache))"

definition dns_store :: "real \<Rightarrow> real \<Rightarrow> string \<Rightarrow> string \<Rightarrow> dns_cache \<Rightarrow> dns_cache" where
  "dns_store dnsTTL now hostname address cache =
     (if dnsTTL \<noteq> 0 then cache(hostname \<mapsto> \<lparr>ip = address, expires = now + dnsTTL\<rparr>)
      else cache)"

definition flushDNSCache :: "dns_cache" where
  "flushDNSCache = Map.empty"

section \<open>The request orchestrator: data\<close>

text \<open>
  The method \<^verbatim>\<open>request(url, options, callback)\<close> runs a synchronous part, which prepares the
  attempt and opens the transport call, and then reacts to events of the transport, of the
  timers, of the download stream and of the abort signal through the handlers it has
  registered. The handlers share the local variables of the call (\<^verbatim>\<open>callback_fired\<close>,
  \<^verbatim>\<open>aborted\<close>, \<^verbatim>\<open>timer\<close>, ...); a retry or a redirect is a new call of \<^verbatim>\<open>request\<close> with
  the same callback. The model keeps, for one logical request, the list of these calls
  (attempts) with their variables, the calls of the callback made so far, the address
  cache and the state of the abort signal, and has one function per handler.

  Left out, because no handler's control flow reads them: the timing tracker inside
  \<^verbatim>\<open>request\<close> (the fourth argument of the callback, computed by \<^verbatim>\<open>finishPerf\<close> above), the
  progress hook, the agents and the byte counters of the socket. The callback is taken
  to be a function, as it is for every caller that goes through the class's asynchronous
  wrapper, so the tests \<^verbatim>\<open>callback &&\<close> of the source are true. The call that opens the
  transport, \<^verbatim>\<open>proto_class.request(options, ...)\<close>, is taken not to throw.
\<close>

subsection \<open>Options and configuration\<close>

text \<open>
  \<^verbatim>\<open>follow\<close> and \<^verbatim>\<open>retries\<close> are a boolean or a number, which is taken to be an integer.
  \<open>enabled\<close> is JavaScript's truthiness, \<open>decrement\<close> is
  \<^verbatim>\<open>(typeof(x) == 'number') ? (x - 1) : x\<close>.
\<close>

datatype budget = Flag bool | Count int

fun enabled :: "budget \<Rightarrow> bool" where
  "enabled (Flag b) = b"
| "enabled (Count n) = (n \<noteq> 0)"

fun decrement :: "budget \<Rightarrow> budget" where
  "decrement (Count n) = Count (n - 1)"
| "decrement (Flag b) = Flag b"

text \<open>
  A header value is a string or a number (\<^verbatim>\<open>Content-Length\<close> is set to a number). A header
  object is given by the list of its own properties, with distinct names, in insertion
  order; assigning to an existing name keeps its place (\<open>AList.update\<close>).
\<close>

datatype hval = HStr string | HNum nat

type_synonym headers = "(string \<times> hval) list"

text \<open>
  The request body: a string or buffer, given by its bytes, or a FormData object, given by
  the headers its \<^verbatim>\<open>getHeaders()\<close> returns. The download target: a file path or a stream.
\<close>

datatype body = Raw string | Form headers

datatype target = Path string | Stream

record response =
  statusCode :: nat
  res_headers :: "(string \<times> string) list"

text \<open>
  The options object as far as \<^verbatim>\<open>request\<close> reads it. \<open>None\<close> is a missing property. A
  property that is present with the value \<^verbatim>\<open>null\<close> differs from a missing one only where the
  code asks whether the key is present: for the two timeouts it is \<open>Some 0\<close>, for \<^verbatim>\<open>follow\<close>
  and \<^verbatim>\<open>retries\<close> it is \<open>Some (Flag False)\<close>. For the headers, the body, the host name, the
  download target and the hook, which the code tests for truthiness or against \<^verbatim>\<open>null\<close>, it
  is \<open>None\<close> as well. The preflight hook is given by whether it returns exactly \<^verbatim>\<open>false\<close>
  for a response. \<^verbatim>\<open>host\<close> is folded into \<^verbatim>\<open>hostname\<close>.
\<close>

record options =
  opt_headers :: "headers option"
  opt_data :: "body option"
  opt_method :: string
  opt_hostname :: "string option"
  opt_timeout :: "nat option"
  opt_idleTimeout :: "nat option"
  opt_follow :: "budget option"
  opt_retries :: "budget option"
  opt_download :: "target option"
  opt_preflight :: "(response \<Rightarrow> bool) option"
  opt_signal :: bool

text \<open>
  The properties of the instance. The three regular expressions are matched against the
  decimal status code and are given as predicates on the code; timeouts are milliseconds
  with 0 for none; the two access lists are given by their \<^verbatim>\<open>check\<close> functions.
\<close>

record config =
  defaultHeaders :: headers
  defaultTimeout :: nat
  defaultIdleTimeout :: nat
  defaultFollow :: budget
  followMatch :: "nat \<Rightarrow> bool"
  dnsTTL :: real
  successMatch :: "nat \<Rightarrow> bool"
  autoDecompress :: bool
  autoError :: bool
  defaultRetries :: budget
  retryMatch :: "nat \<Rightarrow> bool"
  autoContentLength :: bool
  whitelist :: "(string \<Rightarrow> bool) option"
  blacklist :: "(string \<Rightarrow> bool) option"

text \<open>The defaults of the class: \<^verbatim>\<open>/^(301|302|307|308)$/\<close>, \<^verbatim>\<open>/^5\d\d$/\<close> and \<^verbatim>\<open>/^2\d\d$/\<close>.\<close>

definition default_followMatch :: "nat \<Rightarrow> bool" where
  "default_followMatch s = (s = 301 \<or> s = 302 \<or> s = 307 \<or> s = 308)"

definition default_retryMatch :: "nat \<Rightarrow> bool" where
  "default_retryMatch s = (500 \<le> s \<and> s \<le> 599)"

definition default_successMatch :: "nat \<Rightarrow> bool" where
  "default_successMatch s = (200 \<le> s \<and> s \<le> 299)"

text \<open>
  What \<^verbatim>\<open>request\<close> takes from Node and from other libraries, as parameters: the two header
  checks of \<^verbatim>\<open>_http_common\<close>, \<^verbatim>\<open>net.isIP\<close>, the host name that \<^verbatim>\<open>url.parse\<close> finds in a
  URL, the \<^verbatim>\<open>[header: Name: Value]\<close> directives that the regular expression of \<^verbatim>\<open>request\<close>
  cuts out of a URL, whether \<^verbatim>\<open>fs.createWriteStream\<close> throws for a path (and with what),
  the case-insensitive whole-word matches \<^verbatim>\<open>/\bW\b/i\<close> on a content encoding, and whether
  zlib has Brotli.
\<close>

record env =
  checkIsHttpToken :: "string \<Rightarrow> bool"
  checkInvalidHeaderChar :: "hval \<Rightarrow> bool"
  isIP :: "string \<Rightarrow> bool"
  url_hostname :: "string \<Rightarrow> string"
  url_directives :: "string \<Rightarrow> (string \<times> string) list"
  createWriteStream_throws :: "string \<Rightarrow> string option"
  mentions :: "string \<Rightarrow> string \<Rightarrow> bool"
  hasBrotli :: bool

subsection \<open>Outcomes\<close>

text \<open>
  The errors that \<^verbatim>\<open>request\<close> passes to the callback. A socket error carries the error
  object it was raised with (the wording of the message, which \<^verbatim>\<open>handleSocketError\<close> derives
  from it, is not modelled); a timeout carries the message and the milliseconds.
\<close>

datatype error =
    NotWhitelisted string
  | Blacklisted string
  | InvalidHeaderName string
  | InvalidHeaderValue string hval
  | StreamError string
  | Timeout string nat
  | SocketError string
  | HttpError nat
  | RequestAborted
  | ZlibError string

datatype payload = Buffer string | Sink

text \<open>One call \<^verbatim>\<open>callback(err, res, data, perf)\<close>, without the tracker.\<close>

record outcome =
  err :: "error option"
  resp :: "response option"
  payload :: "payload option"

subsection \<open>The variables of one call of request\<close>

datatype mode = Waiting | Draining | Buffering | Streaming

datatype codec = Brotli | Gzip | Deflate

record attempt =
  url :: string
  options :: options
  post_data :: "body option"
  timeout :: nat
  idleTimeout :: nat
  follow :: budget
  retries :: budget
  download :: bool
  pre_download :: "(response \<Rightarrow> bool) option"
  signal :: bool
  callback_fired :: bool
  aborted :: bool
  timer :: "(string \<times> nat) option"
  receivedPacket :: bool
  destroyed :: bool
  errored :: bool
  res :: "response option"
  http_err :: "error option"
  mode :: mode
  chunks :: "string list"
  total_bytes :: nat
  ended :: bool
  inflating :: "(codec \<times> string) option"
  aborter :: bool
  finish_listener :: bool
  error_listener :: bool

text \<open>
  The fields up to \<open>signal\<close> are set when the call has prepared itself: \<open>options\<close> is its
  copy of the options, with the merged headers and the host it connects to, and without
  the properties that \<^verbatim>\<open>request\<close> deletes from it; \<open>download\<close> says whether the variable
  \<^verbatim>\<open>download\<close> holds a stream. \<open>timer\<close> is the pending timer with the
  arguments its callback will pass to \<^verbatim>\<open>handleTimeout\<close>; \<open>destroyed\<close> is \<^verbatim>\<open>req.destroyed\<close>;
  \<open>errored\<close> records that the request has emitted an error before any response; \<open>res\<close> is
  the response once its headers have arrived; \<open>http_err\<close> is the variable \<^verbatim>\<open>err\<close> of the
  response handler; \<open>mode\<close> says which \<^verbatim>\<open>data\<close> and \<^verbatim>\<open>end\<close> handlers are on the response;
  \<open>inflating\<close> is the buffer handed to zlib, with the codec, while the callback of zlib is
  pending; the last three
  fields say whether this call has registered its listener on the abort signal and on the
  download stream.
\<close>

text \<open>What a handler does to the outside: nothing, one call of the callback, or a new call of
  \<^verbatim>\<open>self.request\<close>.\<close>

datatype action = Nothing | Deliver outcome | Recurse string options

record system =
  attempts :: "attempt list"
  delivered :: "outcome list"
  dns_cache :: dns_cache
  signal_aborted :: bool
  sink_closed :: bool
  orphan_listener :: bool

subsection \<open>The synchronous part of request\<close>

text \<open>
  Header objects are ordinary JavaScript objects, kept here as the list of their own
  properties in insertion order. Three things of JavaScript's objects matter to the loops
  of \<^verbatim>\<open>request\<close>. The test \<^verbatim>\<open>key in obj\<close> is true for an own property and also for the names
  that every ordinary object inherits from \<^verbatim>\<open>Object.prototype\<close>. The loop \<^verbatim>\<open>for (key in obj)\<close>
  visits the own properties whose names are array indices first, in ascending numeric
  order, and the others after them in insertion order; an array index is the decimal
  numeral, without leading zeros, of a number up to 4294967294. And the assignment
  \<^verbatim>\<open>obj[key] = value\<close> sets the own property of that name or adds one, except for the name
  \<^verbatim>\<open>__proto__\<close>: an object without an own property of this name inherits it as an accessor,
  whose setter ignores a value that is a string or a number.
\<close>

definition object_prototype :: "string list" where
  "object_prototype =
     [''constructor'', ''__defineGetter__'', ''__defineSetter__'', ''hasOwnProperty'',
      ''__lookupGetter__'', ''__lookupSetter__'', ''isPrototypeOf'', ''propertyIsEnumerable'',
      ''toString'', ''valueOf'', ''__proto__'', ''toLocaleString'']"

definition has_property :: "string \<Rightarrow> (string \<times> 'a) list \<Rightarrow> bool" where
  "has_property k obj = (k \<in> fst ` set obj \<or> k \<in> set object_prototype)"

definition is_digit :: "char \<Rightarrow> bool" where
  "is_digit c = (c \<in> set ''0123456789'')"

definition decimal :: "string \<Rightarrow> nat" where
  "decimal k = foldl (\<lambda>n c. 10 * n + (of_char c - 48)) 0 k"

definition array_index :: "string \<Rightarrow> nat option" where
  "array_index k =
     (if k \<noteq> [] \<and> list_all is_digit k \<and> (k = ''0'' \<or> hd k \<noteq> CHR ''0'')
         \<and> decimal k \<le> 4294967294
      then Some (decimal k) else None)"

definition for_in :: "(string \<times> 'a) list \<Rightarrow> (string \<times> 'a) list" where
  "for_in obj =
     sort_key (\<lambda>p. case array_index (fst p) of None \<Rightarrow> 0 | Some n \<Rightarrow> n)
       (filter (\<lambda>p. array_index (fst p) \<noteq> None) obj)
     @ filter (\<lambda>p. array_index (fst p) = None) obj"

definition assign :: "string \<Rightarrow> 'a \<Rightarrow> (string \<times> 'a) list \<Rightarrow> (string \<times> 'a) list" where
  "assign k v obj =
     (if k = ''__proto__'' \<and> k \<notin> fst ` set obj then obj else AList.update k v obj)"

text \<open>
  \<^verbatim>\<open>for (key in this.defaultHeaders) if (!(key in options.headers)) options.headers[key] = ...\<close>
\<close>

definition add_defaults :: "headers \<Rightarrow> headers \<Rightarrow> headers" where
  "add_defaults defaults hs =
     fold (\<lambda>(k, v) acc. if has_property k acc then acc else assign k v acc)
       (for_in defaults) hs"

text \<open>
  Assignments \<^verbatim>\<open>options.headers[key] = value\<close> for a sequence of names and values, and the loop
  \<^verbatim>\<open>for (key in src) options.headers[key] = src[key]\<close> over an object.
\<close>

definition assign_each :: "headers \<Rightarrow> headers \<Rightarrow> headers" where
  "assign_each src hs = fold (\<lambda>(k, v) acc. assign k v acc) src hs"

definition assign_all :: "headers \<Rightarrow> headers \<Rightarrow> headers" where
  "assign_all src hs = assign_each (for_in src) hs"

definition with_defaults :: "config \<Rightarrow> options \<Rightarrow> headers" where
  "with_defaults cfg opts =
     add_defaults (defaultHeaders cfg) (case opt_headers opts of None \<Rightarrow> [] | Some hs \<Rightarrow> hs)"

text \<open>
  The directives \<^verbatim>\<open>[header: Name: Value]\<close> of the URL are assigned in the order in which they
  stand in the URL.
\<close>

definition with_directives :: "env \<Rightarrow> string \<Rightarrow> headers \<Rightarrow> headers" where
  "with_directives env u hs = assign_each (map (\<lambda>(k, v). (k, HStr v)) (url_directives env u)) hs"

text \<open>\<^verbatim>\<open>if (!options.hostname) options.hostname = parts.hostname\<close>\<close>

definition target_host :: "env \<Rightarrow> string \<Rightarrow> options \<Rightarrow> string" where
  "target_host env u opts =
     (case opt_hostname opts of
        None \<Rightarrow> url_hostname env u
      | Some h \<Rightarrow> if h = [] then url_hostname env u else h)"

text \<open>
  The two tests against the access lists; \<^verbatim>\<open>request\<close> makes them on the host name when it
  is an IP address, and the \<^verbatim>\<open>lookup\<close> handler makes them on the resolved address.
\<close>

definition acl_check :: "config \<Rightarrow> string \<Rightarrow> error option" where
  "acl_check cfg address =
     (if (case whitelist cfg of None \<Rightarrow> False | Some chk \<Rightarrow> \<not> chk address)
      then Some (NotWhitelisted address)
      else if (case blacklist cfg of None \<Rightarrow> False | Some chk \<Rightarrow> chk address)
      then Some (Blacklisted address)
      else None)"

text \<open>
  The preparation of the body: a FormData object assigns its headers, any other body sets
  \<^verbatim>\<open>Content-Length\<close> when \<^verbatim>\<open>autoContentLength\<close> is on or the method is not POST. The
  assignments to \<^verbatim>\<open>Content-Length\<close> and to \<^verbatim>\<open>Host\<close> are assignments to ordinary names.
\<close>

definition with_body :: "config \<Rightarrow> options \<Rightarrow> headers \<Rightarrow> headers" where
  "with_body cfg opts hs =
     (case opt_data opts of
        None \<Rightarrow> hs
      | Some (Form form_headers) \<Rightarrow> assign_all form_headers hs
      | Some (Raw d) \<Rightarrow>
          if autoContentLength cfg \<or> opt_method opts \<noteq> ''POST''
          then AList.update ''Content-Length'' (HNum (length d)) hs
          else hs)"

text \<open>
  The headers of the attempt as the validation loop and the transport see them; \<open>hit\<close> is
  the address found in the cache, if any, which adds the \<^verbatim>\<open>Host\<close> header.
\<close>

definition merged_headers :: "config \<Rightarrow> env \<Rightarrow> string \<Rightarrow> options \<Rightarrow> string option \<Rightarrow> headers" where
  "merged_headers cfg env u opts hit =
     (let hs = with_directives env u (with_defaults cfg opts);
          hs' = (case hit of None \<Rightarrow> hs
                 | Some _ \<Rightarrow> AList.update ''Host'' (HStr (target_host env u opts)) hs)
      in with_body cfg opts hs')"

text \<open>
  The validation loop, given the headers in the order in which the loop visits them: the
  first offending header decides.
\<close>

fun validate :: "env \<Rightarrow> headers \<Rightarrow> error option" where
  "validate env [] = None"
| "validate env ((k, v) # hs) =
     (if \<not> checkIsHttpToken env k then Some (InvalidHeaderName k)
      else if checkInvalidHeaderChar env v then Some (InvalidHeaderValue k v)
      else validate env hs)"

definition failure :: "error \<Rightarrow> outcome" where
  "failure e = \<lparr>err = Some e, resp = None, payload = None\<rparr>"

text \<open>The variables of a call that has passed all checks, as the transport call is opened.\<close>

definition new_attempt :: "config \<Rightarrow> string \<Rightarrow> options \<Rightarrow> headers \<Rightarrow> string \<Rightarrow> attempt" where
  "new_attempt cfg u opts hs connect_host =
     (let t = (case opt_timeout opts of None \<Rightarrow> defaultTimeout cfg | Some ms \<Rightarrow> ms)
      in \<lparr>url = u,
          options = opts\<lparr>opt_headers := Some hs, opt_hostname := Some connect_host,
                      opt_data := None, opt_timeout := None, opt_idleTimeout := None,
                      opt_follow := None, opt_retries := None, opt_download := None,
                      opt_preflight := None, opt_signal := False\<rparr>,
          post_data = opt_data opts,
          timeout = t,
          idleTimeout = (case opt_idleTimeout opts of None \<Rightarrow> defaultIdleTimeout cfg | Some ms \<Rightarrow> ms),
          follow = (case opt_follow opts of None \<Rightarrow> defaultFollow cfg | Some b \<Rightarrow> b),
          retries = (case opt_retries opts of None \<Rightarrow> defaultRetries cfg | Some b \<Rightarrow> b),
          download = (opt_download opts \<noteq> None),
          pre_download = opt_preflight opts,
          signal = opt_signal opts,
          callback_fired = False,
          aborted = False,
          timer = (if t \<noteq> 0 then Some (''Request Timeout'', t) else None),
          receivedPacket = False,
          destroyed = False,
          errored = False,
          res = None,
          http_err = None,
          mode = Waiting,
          chunks = [],
          total_bytes = 0,
          ended = False,
          inflating = None,
          aborter = False,
          finish_listener = False,
          error_listener = (case opt_download opts of Some (Path p) \<Rightarrow> True | _ \<Rightarrow> False)\<rparr>)"

text \<open>
  The synchronous part of \<^verbatim>\<open>request\<close>, in the order of the source: the access lists for a
  host that is an IP address, the address cache, the body, the creation of the download
  file, the validation of the headers. Each failed check calls the callback once and
  returns; otherwise the transport call is opened, which adds the attempt. A call that
  has created its download stream from a path and then fails the validation has put its
  \<^verbatim>\<open>error\<close> listener on the stream already; the listener stays there, with \<^verbatim>\<open>callback_fired\<close>
  true, so that it will do nothing (\<open>orphan_listener\<close>).
\<close>

definition request :: "config \<Rightarrow> env \<Rightarrow> real \<Rightarrow> string \<Rightarrow> options \<Rightarrow> system \<Rightarrow> system" where
  "request cfg env now u opts s =
     (let host = target_host env u opts
      in case (if isIP env host then acl_check cfg host else None) of
           Some e \<Rightarrow> s\<lparr>delivered := delivered s @ [failure e]\<rparr>
         | None \<Rightarrow>
             (let found = dns_lookup (dnsTTL cfg) now host (dns_cache s);
                  s1 = s\<lparr>dns_cache := snd found\<rparr>;
                  hs = merged_headers cfg env u opts (fst found);
                  connect_host = (case fst found of None \<Rightarrow> host | Some address \<Rightarrow> address)
              in case (case opt_download opts of
                         Some (Path p) \<Rightarrow> createWriteStream_throws env p
                       | _ \<Rightarrow> None) of
                   Some msg \<Rightarrow> s1\<lparr>delivered := delivered s1 @ [failure (StreamError msg)]\<rparr>
                 | None \<Rightarrow>
                     (case validate env (for_in hs) of
                        Some e \<Rightarrow>
                          s1\<lparr>delivered := delivered s1 @ [failure e],
                             orphan_listener :=
                               (orphan_listener s1
                                \<or> (case opt_download opts of Some (Path p) \<Rightarrow> True
                                    | _ \<Rightarrow> False))\<rparr>
                      | None \<Rightarrow>
                          s1\<lparr>attempts := attempts s1 @ [new_attempt cfg u opts hs connect_host]\<rparr>)))"

subsection \<open>The handlers\<close>

text \<open>
  The options for the next call, as the retry branches of \<^verbatim>\<open>handleTimeout\<close>,
  \<^verbatim>\<open>handleSocketError\<close> and the response handler set them: the variables of this call are
  written back, \<^verbatim>\<open>retries\<close> is decremented, the properties taken from the URL are deleted
  and the body is restored. The redirect branch decrements \<^verbatim>\<open>follow\<close> instead.
\<close>

definition retry_options :: "attempt \<Rightarrow> options" where
  "retry_options a =
     (options a)\<lparr>opt_timeout := Some (timeout a), opt_idleTimeout := Some (idleTimeout a),
                 opt_follow := Some (follow a),
                 opt_download := (if download a then Some Stream else None),
                 opt_preflight := pre_download a,
                 opt_retries := Some (decrement (retries a)),
                 opt_signal := signal a, opt_hostname := None, opt_data := post_data a\<rparr>"

definition redirect_options :: "attempt \<Rightarrow> options" where
  "redirect_options a =
     (options a)\<lparr>opt_timeout := Some (timeout a), opt_idleTimeout := Some (idleTimeout a),
                 opt_follow := Some (decrement (follow a)),
                 opt_download := (if download a then Some Stream else None),
                 opt_preflight := pre_download a,
                 opt_retries := Some (retries a),
                 opt_signal := signal a, opt_hostname := None, opt_data := post_data a\<rparr>"

text \<open>\<^verbatim>\<open>handleTimeout(msg, ms)\<close>, called by a timer that has fired.\<close>

definition handleTimeout :: "string \<Rightarrow> nat \<Rightarrow> attempt \<Rightarrow> attempt \<times> action" where
  "handleTimeout msg ms a =
     (if receivedPacket a \<and> idleTimeout a \<noteq> 0
      then (a\<lparr>receivedPacket := False, timer := Some (msg, ms)\<rparr>, Nothing)
      else if \<not> aborted a then
        (let a1 = a\<lparr>aborted := True, destroyed := True\<rparr>
         in if \<not> callback_fired a1 then
              (if enabled (retries a1)
               then (a1\<lparr>callback_fired := True\<rparr>, Recurse (url a1) (retry_options a1))
               else (a1\<lparr>callback_fired := True\<rparr>, Deliver (failure (Timeout msg ms))))
            else (a1, Nothing))
      else (a, Nothing))"

text \<open>\<^verbatim>\<open>handleSocketError(e)\<close>, the listener for \<^verbatim>\<open>error\<close> on the request and on the response.\<close>

definition handleSocketError :: "string \<Rightarrow> attempt \<Rightarrow> attempt \<times> action" where
  "handleSocketError e a =
     (if \<not> aborted a then
        (let a1 = a\<lparr>aborted := True, timer := None\<rparr>
         in if \<not> callback_fired a1 then
              (if enabled (retries a1)
               then (a1\<lparr>callback_fired := True\<rparr>, Recurse (url a1) (retry_options a1))
               else (a1\<lparr>callback_fired := True\<rparr>, Deliver (failure (SocketError e))))
            else (a1, Nothing))
      else (a, Nothing))"

text \<open>\<^verbatim>\<open>handleIPError(err)\<close>\<close>

definition handleIPError :: "error \<Rightarrow> attempt \<Rightarrow> attempt \<times> action" where
  "handleIPError e a =
     (if aborted a then (a, Nothing)
      else
        (let a1 = a\<lparr>aborted := True, destroyed := True, timer := None\<rparr>
         in if \<not> callback_fired a1
            then (a1\<lparr>callback_fired := True\<rparr>, Deliver (failure e))
            else (a1, Nothing)))"

text \<open>
  The listener for \<^verbatim>\<open>lookup\<close> on the socket: the access lists on the resolved address, then
  the store into the address cache under \<^verbatim>\<open>options.hostname\<close>.
\<close>

definition on_lookup :: "config \<Rightarrow> real \<Rightarrow> string \<Rightarrow> attempt \<Rightarrow> dns_cache \<Rightarrow> (attempt \<times> action) \<times> dns_cache" where
  "on_lookup cfg now address a c =
     (case acl_check cfg address of
        Some e \<Rightarrow> (handleIPError e a, c)
      | None \<Rightarrow>
          ((a, Nothing),
           dns_store (dnsTTL cfg) now
             (case opt_hostname (options a) of None \<Rightarrow> [] | Some h \<Rightarrow> h) address c))"

text \<open>
  The decision of the response handler, as the two tests of the source make it: the
  redirect first, then the retry. A header value counts when it is a non-empty string.
\<close>

datatype decision = Redirect string | Retry | Proceed

definition classify :: "config \<Rightarrow> budget \<Rightarrow> budget \<Rightarrow> response \<Rightarrow> decision" where
  "classify cfg fo re r =
     (case (if enabled fo \<and> followMatch cfg (statusCode r)
            then map_of (res_headers r) ''location'' else None) of
        Some (c # cs) \<Rightarrow> Redirect (c # cs)
      | _ \<Rightarrow> if enabled re \<and> retryMatch cfg (statusCode r) then Retry else Proceed)"

text \<open>The function \<^verbatim>\<open>aborter\<close>, the listener on the abort signal.\<close>

definition on_abort :: "attempt \<Rightarrow> attempt \<times> action" where
  "on_abort a =
     (if aborted a \<or> callback_fired a then (a, Nothing)
      else (a\<lparr>aborted := True, callback_fired := True, destroyed := True\<rparr>,
            Deliver \<lparr>err = Some RequestAborted, resp = res a, payload = None\<rparr>))"

text \<open>
  The rest of the response handler once neither redirect nor retry applies: the error of
  the automatic error mode, the registration of the abort listener (which runs at once
  when the signal is aborted already), then stream mode when there is a download stream
  (a preflight hook that returns \<^verbatim>\<open>false\<close> takes the stream away), then buffer mode when
  there is none.
\<close>

definition start_body :: "config \<Rightarrow> bool \<Rightarrow> response \<Rightarrow> attempt \<Rightarrow> attempt \<times> action" where
  "start_body cfg sig_aborted r a =
     (let a1 = a\<lparr>http_err := (if autoError cfg \<and> \<not> successMatch cfg (statusCode r)
                               then Some (HttpError (statusCode r)) else None)\<rparr>;
          step = (if signal a1
                  then (if sig_aborted then on_abort (a1\<lparr>aborter := True\<rparr>)
                        else (a1\<lparr>aborter := True\<rparr>, Nothing))
                  else (a1, Nothing));
          a2 = fst step;
          a3 = (if download a2 then
                  (let a' = a2\<lparr>mode := Streaming, finish_listener := True\<rparr>
                   in case pre_download a' of
                        None \<Rightarrow> a'
                      | Some hook \<Rightarrow>
                          if hook r then a'\<lparr>finish_listener := False, download := False\<rparr> else a')
                else a2);
          a4 = (if \<not> download a3 then a3\<lparr>mode := Buffering, chunks := [], total_bytes := 0\<rparr>
                else a3)
      in (a4, snd step))"

text \<open>
  The response handler. It returns at once when the request is destroyed. Otherwise the
  first-byte timer is cleared and the idle timer armed; a redirect or a retry clears the
  timer again, sets \<^verbatim>\<open>callback_fired\<close> and calls \<^verbatim>\<open>self.request\<close>.
\<close>

definition on_response :: "config \<Rightarrow> bool \<Rightarrow> response \<Rightarrow> attempt \<Rightarrow> attempt \<times> action" where
  "on_response cfg sig_aborted r a =
     (if destroyed a then (a, Nothing)
      else
        (let a1 = a\<lparr>res := Some r,
                    timer := (if idleTimeout a \<noteq> 0
                              then Some (''Idle Timeout'', idleTimeout a) else None)\<rparr>
         in case classify cfg (follow a1) (retries a1) r of
              Redirect location \<Rightarrow>
                (a1\<lparr>mode := Draining, timer := None, callback_fired := True\<rparr>,
                 Recurse location (redirect_options a1))
            | Retry \<Rightarrow>
                (a1\<lparr>mode := Draining, timer := None, callback_fired := True\<rparr>,
                 Recurse (url a1) (retry_options a1))
            | Proceed \<Rightarrow> start_body cfg sig_aborted r a1))"

text \<open>The listeners for \<^verbatim>\<open>data\<close> on the response.\<close>

definition on_data :: "string \<Rightarrow> attempt \<Rightarrow> attempt" where
  "on_data chunk a =
     (case mode a of
        Buffering \<Rightarrow> a\<lparr>chunks := chunks a @ [chunk],
                       total_bytes := total_bytes a + length chunk,
                       receivedPacket := True\<rparr>
      | Streaming \<Rightarrow> a\<lparr>receivedPacket := True\<rparr>
      | _ \<Rightarrow> a)"

text \<open>
  The codec that the buffer mode picks for a response, by the three tests of the source
  in their order.
\<close>

definition select_codec :: "config \<Rightarrow> env \<Rightarrow> response \<Rightarrow> codec option" where
  "select_codec cfg env r =
     (case map_of (res_headers r) ''content-encoding'' of
        Some (c # cs) \<Rightarrow>
          if \<not> autoDecompress cfg then None
          else if mentions env ''br'' (c # cs) \<and> hasBrotli env then Some Brotli
          else if mentions env ''gzip'' (c # cs) then Some Gzip
          else if mentions env ''deflate'' (c # cs) then Some Deflate
          else None
      | _ \<Rightarrow> None)"

text \<open>The listener for \<^verbatim>\<open>end\<close> on the response in buffer mode.\<close>

definition on_end :: "config \<Rightarrow> env \<Rightarrow> attempt \<Rightarrow> attempt \<times> action" where
  "on_end cfg env a =
     (case mode a of
        Buffering \<Rightarrow>
          (let a1 = a\<lparr>timer := None\<rparr>
           in if total_bytes a1 \<noteq> 0 then
                (case (case res a1 of None \<Rightarrow> None | Some r \<Rightarrow> select_codec cfg env r) of
                   Some c \<Rightarrow> (a1\<lparr>inflating := Some (c, concat (chunks a1))\<rparr>, Nothing)
                 | None \<Rightarrow>
                     if \<not> callback_fired a1
                     then (a1\<lparr>callback_fired := True\<rparr>,
                           Deliver \<lparr>err = http_err a1, resp = res a1,
                                    payload = Some (Buffer (concat (chunks a1)))\<rparr>)
                     else (a1, Nothing))
              else if \<not> callback_fired a1
                then (a1\<lparr>callback_fired := True\<rparr>,
                      Deliver \<lparr>err = http_err a1, resp = res a1, payload = Some (Buffer [])\<rparr>)
                else (a1, Nothing))
      | _ \<Rightarrow> (a, Nothing))"

text \<open>The callback given to zlib: \<^verbatim>\<open>callback(err || zerr, res, data, ...)\<close>.\<close>

definition on_inflated :: "string option \<Rightarrow> string option \<Rightarrow> attempt \<Rightarrow> attempt \<times> action" where
  "on_inflated zerr d a =
     (if \<not> callback_fired a
      then (a\<lparr>callback_fired := True\<rparr>,
            Deliver \<lparr>err = (case http_err a of Some e \<Rightarrow> Some e | None \<Rightarrow> map_option ZlibError zerr),
                     resp = res a, payload = map_option Buffer d\<rparr>)
      else (a, Nothing))"

text \<open>The listeners for \<^verbatim>\<open>finish\<close> and \<^verbatim>\<open>error\<close> on the download stream.\<close>

definition on_download_finish :: "attempt \<Rightarrow> attempt \<times> action" where
  "on_download_finish a =
     (let a1 = a\<lparr>timer := None\<rparr>
      in if \<not> callback_fired a1
         then (a1\<lparr>callback_fired := True\<rparr>,
               Deliver \<lparr>err = http_err a1, resp = res a1, payload = Some Sink\<rparr>)
         else (a1, Nothing))"

definition on_download_error :: "string \<Rightarrow> attempt \<Rightarrow> attempt \<times> action" where
  "on_download_error e a =
     (let a1 = a\<lparr>timer := None\<rparr>
      in if \<not> callback_fired a1
         then (a1\<lparr>callback_fired := True\<rparr>, Deliver (failure (StreamError e)))
         else (a1, Nothing))"

subsection \<open>Events and runs\<close>

text \<open>
  The events that reach the handlers of one logical request. An event of a transport call
  names the attempt by its position; the events of the download stream and of the abort
  signal reach every attempt that has registered its listener.
\<close>

datatype event =
    TimerFires nat
  | ReqError nat string
  | Lookup nat string
  | Response nat response
  | Data nat string
  | End nat
  | Inflated nat "string option" "string option"
  | DownloadFinish
  | DownloadError string
  | Abort

text \<open>The effect of a handler's action on the system; a new call runs its synchronous part.\<close>

definition perform :: "config \<Rightarrow> env \<Rightarrow> real \<Rightarrow> nat \<Rightarrow> attempt \<times> action \<Rightarrow> system \<Rightarrow> system" where
  "perform cfg env now i result s =
     (let s1 = s\<lparr>attempts := (attempts s)[i := fst result]\<rparr>
      in case snd result of
           Nothing \<Rightarrow> s1
         | Deliver out \<Rightarrow> s1\<lparr>delivered := delivered s1 @ [out]\<rparr>
         | Recurse u opts \<Rightarrow> request cfg env now u opts s1)"

text \<open>
  An event of a stream or of the signal runs the listener of every attempt that has one,
  in the order of registration; these listeners never start a new call.
\<close>

fun broadcast :: "(attempt \<Rightarrow> bool) \<Rightarrow> (attempt \<Rightarrow> attempt \<times> action) \<Rightarrow> attempt list
    \<Rightarrow> attempt list \<times> outcome list" where
  "broadcast listens h [] = ([], [])"
| "broadcast listens h (a # as) =
     (let result = (if listens a then h a else (a, Nothing));
          others = broadcast listens h as
      in (fst result # fst others,
          (case snd result of Deliver out \<Rightarrow> [out] | _ \<Rightarrow> []) @ snd others))"

definition announce :: "(attempt \<Rightarrow> bool) \<Rightarrow> (attempt \<Rightarrow> attempt \<times> action) \<Rightarrow> system \<Rightarrow> system" where
  "announce listens h s =
     (let result = broadcast listens h (attempts s)
      in s\<lparr>attempts := fst result, delivered := delivered s @ snd result\<rparr>)"

text \<open>
  One event at clock reading \<open>now\<close>. The result is \<open>None\<close> when Node cannot raise the event
  in that state: a timer fires only while it is pending; a response comes once, and not
  after the request has failed; data and the end of the body come after the response and
  before its end; zlib calls back once per call; a stream finishes or fails once, finishes
  only when a response is being piped into it, and its failure is heard only through the
  listener that \<^verbatim>\<open>request\<close> puts on a stream it has created from a path (the listener of
  an attempt, or the one a call has left behind when it failed the validation); the
  signal aborts once.
\<close>

definition fire :: "config \<Rightarrow> env \<Rightarrow> real \<Rightarrow> system \<Rightarrow> event \<Rightarrow> system option" where
  "fire cfg env now s ev =
     (case ev of
        TimerFires i \<Rightarrow>
          if i < length (attempts s) then
            (case timer (attempts s ! i) of
               None \<Rightarrow> None
             | Some (msg, ms) \<Rightarrow>
                 Some (perform cfg env now i
                        (handleTimeout msg ms ((attempts s ! i)\<lparr>timer := None\<rparr>)) s))
          else None
      | ReqError i e \<Rightarrow>
          if i < length (attempts s) then
            Some (perform cfg env now i
                   (handleSocketError e ((attempts s ! i)\<lparr>errored := True\<rparr>)) s)
          else None
      | Lookup i address \<Rightarrow>
          if i < length (attempts s) \<and> res (attempts s ! i) = None then
            (let result = on_lookup cfg now address (attempts s ! i) (dns_cache s)
             in Some (perform cfg env now i (fst result) (s\<lparr>dns_cache := snd result\<rparr>)))
          else None
      | Response i r \<Rightarrow>
          if i < length (attempts s) \<and> res (attempts s ! i) = None
             \<and> \<not> errored (attempts s ! i)
          then Some (perform cfg env now i
                      (on_response cfg (signal_aborted s) r (attempts s ! i)) s)
          else None
      | Data i chunk \<Rightarrow>
          if i < length (attempts s) \<and> res (attempts s ! i) \<noteq> None
             \<and> \<not> ended (attempts s ! i)
          then Some (perform cfg env now i (on_data chunk (attempts s ! i), Nothing) s)
          else None
      | End i \<Rightarrow>
          if i < length (attempts s) \<and> res (attempts s ! i) \<noteq> None
             \<and> \<not> ended (attempts s ! i)
          then Some (perform cfg env now i
                      (on_end cfg env ((attempts s ! i)\<lparr>ended := True\<rparr>)) s)
          else None
      | Inflated i zerr d \<Rightarrow>
          if i < length (attempts s) \<and> inflating (attempts s ! i) \<noteq> None
          then Some (perform cfg env now i
                      (on_inflated zerr d ((attempts s ! i)\<lparr>inflating := None\<rparr>)) s)
          else None
      | DownloadFinish \<Rightarrow>
          if \<not> sink_closed s \<and> (\<exists>a \<in> set (attempts s). mode a = Streaming)
          then Some (announce finish_listener on_download_finish (s\<lparr>sink_closed := True\<rparr>))
          else None
      | DownloadError e \<Rightarrow>
          if \<not> sink_closed s
             \<and> ((\<exists>a \<in> set (attempts s). error_listener a) \<or> orphan_listener s)
          then Some (announce error_listener (on_download_error e) (s\<lparr>sink_closed := True\<rparr>))
          else None
      | Abort \<Rightarrow>
          if \<not> signal_aborted s
          then Some (announce aborter on_abort (s\<lparr>signal_aborted := True\<rparr>))
          else None)"

text \<open>A run: the events in their order, each with its clock reading.\<close>

fun run :: "config \<Rightarrow> env \<Rightarrow> system \<Rightarrow> (real \<times> event) list \<Rightarrow> system option" where
  "run cfg env s [] = Some s"
| "run cfg env s ((now, ev) # rest) =
     (case fire cfg env now s ev of None \<Rightarrow> None | Some s' \<Rightarrow> run cfg env s' rest)"

text \<open>The system before the first call, and the logical request started by the caller.\<close>

definition idle :: system where
  "idle = \<lparr>attempts = [], delivered = [], dns_cache = Map.empty, signal_aborted = False,
           sink_closed = False, orphan_listener = False\<rparr>"

definition first_call :: "config \<Rightarrow> env \<Rightarrow> real \<Rightarrow> string \<Rightarrow> options \<Rightarrow> system" where
  "first_call cfg env now u opts = request cfg env now u opts idle"

subsection \<open>A concrete instance\<close>

text \<open>
  The properties of a fresh instance as the class declares them (\<^verbatim>\<open>defaultIdleTimeout\<close> is
  not declared, hence 0), an environment with simple stand-ins for the checks of Node (a
  token has no space and is not empty, a header value has no line feed, a host is an IP
  address when it consists of digits and dots, a URL is its own host name and carries no
  directives, creating a file never throws), and an options object without properties.
\<close>

definition class_defaults :: config where
  "class_defaults =
     \<lparr>defaultHeaders = [(''Accept-Encoding'', HStr ''gzip, deflate, br''),
                        (''User-Agent'', HStr ''PixlRequest'')],
      defaultTimeout = 30000,
      defaultIdleTimeout = 0,
      defaultFollow = Flag False,
      followMatch = default_followMatch,
      dnsTTL = 0,
      successMatch = default_successMatch,
      autoDecompress = True,
      autoError = False,
      defaultRetries = Flag False,
      retryMatch = default_retryMatch,
      autoContentLength = True,
      whitelist = None,
      blacklist = None\<rparr>"

definition sample_env :: env where
  "sample_env =
     \<lparr>checkIsHttpToken = (\<lambda>k. k \<noteq> [] \<and> CHR '' '' \<notin> set k),
      checkInvalidHeaderChar = (\<lambda>v. case v of HStr t \<Rightarrow> CHR 0x0A \<in> set t | HNum n \<Rightarrow> False),
      isIP = (\<lambda>h. h \<noteq> [] \<and> set h \<subseteq> set ''0123456789.''),
      url_hostname = (\<lambda>u. u),
      url_directives = (\<lambda>u. []),
      createWriteStream_throws = (\<lambda>p. None),
      mentions = (\<lambda>w t. w = t),
      hasBrotli = True\<rparr>"

definition no_options :: options where
  "no_options =
     \<lparr>opt_headers = None, opt_data = None, opt_method = ''GET'', opt_hostname = None,
      opt_timeout = None, opt_idleTimeout = None, opt_follow = None, opt_retries = None,
      opt_download = None, opt_preflight = None, opt_signal = False\<rparr>"

text \<open>
  An attempt that waits for its response, with two redirects and one retry left, and
  three responses: a redirect, a redirect whose \<^verbatim>\<open>Location\<close> header is empty, and a
  plain success.
\<close>

definition waiting_attempt :: attempt where
  "waiting_attempt = new_attempt class_defaults ''example.com''
      (no_options\<lparr>opt_follow := Some (Count 2), opt_retries := Some (Count 1)\<rparr>)
      (defaultHeaders class_defaults) ''example.com''"

definition moved :: response where
  "moved = \<lparr>statusCode = 302, res_headers = [(''location'', ''other.example'')]\<rparr>"

definition moved_nowhere :: response where
  "moved_nowhere = \<lparr>statusCode = 302, res_headers = [(''location'', [])]\<rparr>"

definition ok_response :: response where
  "ok_response = \<lparr>statusCode = 200, res_headers = []\<rparr>"

subsection \<open>Notions of the properties of the orchestrator\<close>

text \<open>
  The failures of the synchronous part: a blocked address, a download file that cannot be
  created, a bad header.
\<close>

definition config_error :: "error \<Rightarrow> bool" where
  "config_error e =
     (case e of NotWhitelisted h \<Rightarrow> True | Blacklisted h \<Rightarrow> True | StreamError m \<Rightarrow> True
      | InvalidHeaderName k \<Rightarrow> True | InvalidHeaderValue k v \<Rightarrow> True | _ \<Rightarrow> False)"

text \<open>
  An attempt in buffer mode that has received response \<open>r\<close> and no byte of its body and
  has not resolved; \<open>e\<close> is the error of the automatic error mode.
\<close>

definition buffering_empty :: "response \<Rightarrow> error option \<Rightarrow> attempt \<Rightarrow> bool" where
  "buffering_empty r e a =
     (mode a = Buffering \<and> total_bytes a = 0 \<and> \<not> callback_fired a \<and> res a = Some r
      \<and> \<not> ended a \<and> inflating a = None \<and> http_err a = e)"

text \<open>
  An attempt on which the abort listener would act, the outcome it delivers, and the state
  of an attempt after it has acted.
\<close>

definition abortable :: "attempt \<Rightarrow> bool" where
  "abortable a = (aborter a \<and> \<not> aborted a \<and> \<not> callback_fired a)"

definition abort_outcome :: "attempt \<Rightarrow> outcome" where
  "abort_outcome a = \<lparr>err = Some RequestAborted, resp = res a, payload = None\<rparr>"

definition silent :: "attempt \<Rightarrow> bool" where
  "silent a = (aborted a \<and> callback_fired a \<and> destroyed a)"

text \<open>
  An attempt whose abort listener, if it is registered, has the response and is in one of
  the two body modes.
\<close>

definition late_listener :: "attempt \<Rightarrow> bool" where
  "late_listener a = (aborter a \<longrightarrow> res a \<noteq> None \<and> (mode a = Buffering \<or> mode a = Streaming))"

text \<open>
  Options for the examples: an upload of a form with a content type that the caller has
  set as well; a download into a file whose directory is missing (the stream is created
  and fails later), with redirects followed; a request with an abort signal, and its
  attempt.
\<close>

definition upload_options :: options where
  "upload_options =
     no_options\<lparr>opt_headers := Some [(''content-type'', HStr ''text/plain''),
                                    (''X-Trace'', HStr ''1'')],
                opt_data := Some (Form [(''content-type'', HStr ''multipart/form-data; boundary=x'')]),
                opt_method := ''POST''\<rparr>"

definition download_options :: options where
  "download_options =
     no_options\<lparr>opt_download := Some (Path ''/missing/dir/file''), opt_follow := Some (Flag True)\<rparr>"

definition signal_options :: options where
  "signal_options = no_options\<lparr>opt_signal := True\<rparr>"

definition signalled_attempt :: attempt where
  "signalled_attempt = new_attempt class_defaults ''example.com'' signal_options
      (defaultHeaders class_defaults) ''example.com''"

text \<open>
  Options with a header name that contains a space, and with five retries; the same with a
  download into a file; and an instance whose blacklist blocks the address 10.0.0.1.
\<close>

definition bad_header_options :: options where
  "bad_header_options =
     no_options\<lparr>opt_headers := Some [(''X Bad'', HStr ''1'')], opt_retries := Some (Count 5)\<rparr>"

definition bad_download_options :: options where
  "bad_download_options = bad_header_options\<lparr>opt_download := Some (Path ''/missing/dir/file'')\<rparr>"

definition blocking :: config where
  "blocking = class_defaults\<lparr>blacklist := Some (\<lambda>address. address = ''10.0.0.1'')\<rparr>"

text \<open>A response with a compressed body, as its headers say.\<close>

definition gzipped :: response where
  "gzipped = \<lparr>statusCode = 200, res_headers = [(''content-encoding'', ''gzip'')]\<rparr>"

text \<open>
  The headers that can enter the merged headers of a call and of its retries, and the
  condition under which every call of the chain passes the synchronous checks: the access
  lists let the host through, creating the download file does not throw, and every such
  header is valid.
\<close>

definition candidates :: "config \<Rightarrow> env \<Rightarrow> string \<Rightarrow> options \<Rightarrow> (string \<times> hval) set" where
  "candidates cfg env u opts =
     set (case opt_headers opts of None \<Rightarrow> [] | Some hs \<Rightarrow> hs)
     \<union> set (defaultHeaders cfg)
     \<union> set (map (\<lambda>(k, v). (k, HStr v)) (url_directives env u))
     \<union> {(''Host'', HStr (target_host env u opts)), (''Host'', HStr (url_hostname env u))}
     \<union> (case opt_data opts of
          None \<Rightarrow> {}
        | Some (Form form_headers) \<Rightarrow> set form_headers
        | Some (Raw d) \<Rightarrow> {(''Content-Length'', HNum (length d))})"

definition passes :: "config \<Rightarrow> env \<Rightarrow> string \<Rightarrow> options \<Rightarrow> bool" where
  "passes cfg env u opts =
     ((\<forall>h \<in> {target_host env u opts, url_hostname env u}.
          isIP env h \<longrightarrow> acl_check cfg h = None)
      \<and> (\<forall>p. opt_download opts = Some (Path p) \<longrightarrow> createWriteStream_throws env p = None)
      \<and> (\<forall>(k, v) \<in> candidates cfg env u opts.
            checkIsHttpToken env k \<and> \<not> checkInvalidHeaderChar env v))"

text \<open>
  How the transport fails an attempt: with an error on the request, or by not answering
  before the first-byte timer fires. The event that tells the handlers, and the error the
  caller gets when no retry is left.
\<close>

datatype failure_kind = Refused string | TimedOut

fun failing_event :: "nat \<Rightarrow> failure_kind \<Rightarrow> event" where
  "failing_event j (Refused e) = ReqError j e"
| "failing_event j TimedOut = TimerFires j"

fun failing_error :: "nat \<Rightarrow> failure_kind \<Rightarrow> error" where
  "failing_error ms (Refused e) = SocketError e"
| "failing_error ms TimedOut = Timeout ''Request Timeout'' ms"

text \<open>
  An attempt that waits for its response with \<open>n\<close> retries left and a first-byte timeout of
  \<open>ms\<close>, and whose retry would pass the synchronous checks.
\<close>

definition retrying :: "config \<Rightarrow> env \<Rightarrow> string \<Rightarrow> nat \<Rightarrow> nat \<Rightarrow> attempt \<Rightarrow> bool" where
  "retrying cfg env u ms n a =
     (url a = u \<and> retries a = Count (int n) \<and> \<not> aborted a \<and> \<not> callback_fired a
      \<and> timeout a = ms \<and> \<not> receivedPacket a
      \<and> timer a = (if ms \<noteq> 0 then Some (''Request Timeout'', ms) else None)
      \<and> passes cfg env u (retry_options a))"

text \<open>Options with two retries, and a transport that fails three times.\<close>

definition two_retries :: options where
  "two_retries = no_options\<lparr>opt_retries := Some (Count 2)\<rparr>"

definition three_failures :: "nat \<Rightarrow> failure_kind" where
  "three_failures j = (if j = 1 then TimedOut else if j = 0 then Refused ''ECONNRESET''
                       else Refused ''ECONNREFUSED'')"

text \<open>
  The latch. An attempt is live while its \<^verbatim>\<open>callback_fired\<close> is false. An attempt is sound when
  a fired latch goes with a request that cannot bring a response any more (the response
  is there, or the request has failed or is destroyed), and zlib and the \<^verbatim>\<open>finish\<close>
  listener are only engaged after the response. The tokens of a system are the outcomes
  delivered plus the live attempts.
\<close>

definition live :: "attempt \<Rightarrow> bool" where
  "live a = (\<not> callback_fired a)"

definition sound :: "attempt \<Rightarrow> bool" where
  "sound a =
     ((callback_fired a \<longrightarrow> res a \<noteq> None \<or> errored a \<or> destroyed a)
      \<and> (inflating a \<noteq> None \<longrightarrow> res a \<noteq> None)
      \<and> (finish_listener a \<longrightarrow> res a \<noteq> None))"

definition tokens :: "system \<Rightarrow> nat" where
  "tokens s = length (delivered s) + length (filter live (attempts s))"

definition latched :: "system \<Rightarrow> bool" where
  "latched s = ((\<forall>a \<in> set (attempts s). sound a) \<and> tokens s \<le> 1)"

text \<open>
  What a handler may do with the latch of its attempt: it leaves the attempt sound, it
  does not revive it, and it delivers or starts a new call only by taking a live attempt's
  latch.
\<close>

definition guarded :: "attempt \<Rightarrow> attempt \<times> action \<Rightarrow> bool" where
  "guarded a result =
     (sound (fst result)
      \<and> (case snd result of
            Nothing \<Rightarrow> live (fst result) \<longrightarrow> live a
          | Deliver out \<Rightarrow> live a \<and> \<not> live (fst result)
          | Recurse u opts \<Rightarrow> live a \<and> \<not> live (fst result)))"

section \<open>Properties of header objects\<close>

lemma set_for_in: "set (for_in obj) = set obj"
  by (auto simp: for_in_def)

lemma distinct_for_in:
  assumes "distinct (map fst obj)"
  shows "distinct (map fst (for_in obj))"
proof -
  from assms have d: "distinct obj" and i: "inj_on fst (set obj)"
    by (simp_all add: distinct_map)
  have "distinct (for_in obj)"
    using d by (auto simp: for_in_def)
  moreover have "inj_on fst (set (for_in obj))"
    using i by (simp add: set_for_in)
  ultimately show ?thesis by (simp add: distinct_map)
qed

lemma map_of_for_in:
  assumes "distinct (map fst obj)"
  shows "map_of (for_in obj) = map_of obj" and "map_of (rev (for_in obj)) = map_of obj"
proof -
  show "map_of (for_in obj) = map_of obj"
    by (rule map_of_inject_set [THEN iffD2]) (simp_all add: assms distinct_for_in set_for_in)
  show "map_of (rev (for_in obj)) = map_of obj"
    by (rule map_of_inject_set [THEN iffD2])
      (simp_all add: assms distinct_for_in set_for_in rev_map [symmetric])
qed

lemma for_in_names:
  assumes "\<forall>p \<in> set obj. array_index (fst p) = None"
  shows "for_in obj = obj"
proof -
  have "filter (\<lambda>p. array_index (fst p) \<noteq> None) obj = []"
    using assms by (simp add: filter_empty_conv)
  moreover have "filter (\<lambda>p. array_index (fst p) = None) obj = obj"
    using assms by (simp add: filter_id_conv)
  ultimately show ?thesis by (simp add: for_in_def)
qed

lemma map_of_assign:
  "map_of (assign k v obj) k' =
     (if k' = k then (if k = ''__proto__'' \<and> map_of obj k = None then None else Some v)
      else map_of obj k')"
  by (auto simp: assign_def update_conv' map_of_eq_None_iff)

lemma set_update_subset: "set (AList.update k v al) \<subseteq> insert (k, v) (set al)"
  by (induction al) auto

lemma set_assign: "set (assign k v obj) \<subseteq> insert (k, v) (set obj)"
  using set_update_subset [of k v obj] by (auto simp: assign_def)

lemma map_of_assign_each:
  "map_of (assign_each src hs) k =
     (if k = ''__proto__'' \<and> map_of hs k = None then None
      else case map_of (rev src) k of Some v \<Rightarrow> Some v | None \<Rightarrow> map_of hs k)"
proof (induction src arbitrary: hs)
  case Nil
  then show ?case by (auto simp: assign_each_def)
next
  case (Cons p src)
  obtain k' v' where p: "p = (k', v')" by (cases p)
  have "assign_each (p # src) hs = assign_each src (assign k' v' hs)"
    by (simp add: assign_each_def p)
  then show ?case
    using Cons.IH [of "assign k' v' hs"]
    by (cases "k = ''__proto__''"; cases "map_of hs k"; cases "k' = k")
      (auto simp: p map_of_assign map_add_def split: option.splits)
qed

lemma map_of_assign_all:
  assumes "distinct (map fst src)"
  shows "map_of (assign_all src hs) k =
     (case map_of src k of
        Some v \<Rightarrow> if k = ''__proto__'' \<and> map_of hs k = None then None else Some v
      | None \<Rightarrow> map_of hs k)"
  by (cases "k = ''__proto__''"; cases "map_of hs k")
    (auto simp: assign_all_def map_of_assign_each map_of_for_in [OF assms] split: option.splits)

lemma set_assign_each: "set (assign_each src hs) \<subseteq> set src \<union> set hs"
proof (induction src arbitrary: hs)
  case Nil
  then show ?case by (simp add: assign_each_def)
next
  case (Cons p src)
  obtain k v where p: "p = (k, v)" by (cases p)
  have "assign_each (p # src) hs = assign_each src (assign k v hs)"
    by (simp add: assign_each_def p)
  with Cons.IH [of "assign k v hs"] set_assign [of k v hs] show ?case
    by (auto simp: p)
qed

lemma set_assign_all: "set (assign_all src hs) \<subseteq> set src \<union> set hs"
  using set_assign_each [of "for_in src" hs] by (simp add: assign_all_def set_for_in)

lemma set_add_defaults: "set (add_defaults defaults hs) \<subseteq> set defaults \<union> set hs"
proof -
  have "set (fold (\<lambda>(k, v) acc. if has_property k acc then acc else assign k v acc) ds hs)
          \<subseteq> set ds \<union> set hs" for ds
  proof (induction ds arbitrary: hs)
    case Nil
    then show ?case by simp
  next
    case (Cons p ds)
    obtain k v where p: "p = (k, v)" by (cases p)
    show ?case
      using Cons.IH [of "assign k v hs"] Cons.IH [of hs] set_assign [of k v hs]
      by (auto simp: p)
  qed
  from this [of "for_in defaults"] show ?thesis
    by (simp add: add_defaults_def set_for_in)
qed

text \<open>The definitions by which the loops over a given object are evaluated.\<close>

lemmas object_defs =
  for_in_def array_index_def is_digit_def decimal_def has_property_def object_prototype_def
  assign_def

text \<open>
  Examples: a default header with an inherited name is skipped; the loop visits array
  indices first, in numeric order; an assignment to \<^verbatim>\<open>__proto__\<close> adds nothing; the
  validation loop meets the header named by an array index before one that was inserted
  earlier; and a default header that is skipped is not validated, so that the call is
  opened.
\<close>

lemma inherited_default_skipped:
  "add_defaults [(''constructor'', HStr ''x''), (''Accept'', HStr ''*/*'')] []
     = [(''Accept'', HStr ''*/*'')]"
  by (simp add: add_defaults_def object_defs)

lemma for_in_order:
  "map fst (for_in [(''b'', HStr ''1''), (''10'', HStr ''2''), (''9'', HStr ''3''),
                    (''01'', HStr ''4''), (''0'', HStr ''5'')])
     = [''0'', ''9'', ''10'', ''b'', ''01'']"
  by (simp add: object_defs)

lemma array_index_bounds:
  "array_index ''4294967294'' = Some 4294967294 \<and> array_index ''4294967295'' = None
   \<and> array_index '''' = None \<and> array_index ''-1'' = None"
  by (simp add: object_defs)

lemma proto_not_assigned:
  "assign_each [(''__proto__'', HStr ''x''), (''A'', HStr ''y'')] [] = [(''A'', HStr ''y'')]"
  by (simp add: assign_each_def object_defs)

lemma validation_order:
  "validate sample_env (for_in [(''b c'', HStr ''1''), (''7'', HStr [CHR 0x0A])])
     = Some (InvalidHeaderValue ''7'' (HStr [CHR 0x0A]))"
  by (simp add: object_defs sample_env_def)

lemma skipped_default_is_not_validated:
  "attempts (first_call
       (class_defaults\<lparr>defaultHeaders := [(''toString'', HStr [CHR 0x0A])]\<rparr>)
       sample_env 0 ''example.com'' no_options)
     = [new_attempt (class_defaults\<lparr>defaultHeaders := [(''toString'', HStr [CHR 0x0A])]\<rparr>)
          ''example.com'' no_options [] ''example.com'']"
  by (simp add: first_call_def request_def no_options_def idle_def class_defaults_def
      sample_env_def target_host_def dns_lookup_def merged_headers_def with_body_def
      with_directives_def with_defaults_def add_defaults_def assign_all_def assign_each_def
      object_defs Let_def acl_check_def)

section \<open>Properties of the response handler\<close>

lemma classify_cases:
  "classify cfg fo re r =
     (if enabled fo \<and> followMatch cfg (statusCode r)
         \<and> (\<exists>l. map_of (res_headers r) ''location'' = Some l \<and> l \<noteq> [])
      then Redirect (the (map_of (res_headers r) ''location''))
      else if enabled re \<and> retryMatch cfg (statusCode r) then Retry else Proceed)"
  by (auto simp: classify_def split: option.splits list.splits)

lemma on_response_decides:
  "\<not> destroyed a \<Longrightarrow>
     snd (on_response cfg sa r a) =
       (case classify cfg (follow a) (retries a) r of
          Redirect l \<Rightarrow> Recurse l (redirect_options a)
        | Retry \<Rightarrow> Recurse (url a) (retry_options a)
        | Proceed \<Rightarrow> snd (start_body cfg sa r
              (a\<lparr>res := Some r, timer := (if idleTimeout a \<noteq> 0
                           then Some (''Idle Timeout'', idleTimeout a) else None)\<rparr>)))"
  by (simp add: on_response_def Let_def redirect_options_def retry_options_def
        split: decision.splits)

text \<open>
  Claim C3, as amended. For a response that arrives while the request is not destroyed, the
  response handler redirects exactly when \<^verbatim>\<open>follow\<close> is truthy, the status matches
  \<^verbatim>\<open>followMatch\<close> (by default 301, 302, 307, 308) and the \<^verbatim>\<open>Location\<close> header is present
  with a non-empty value; it retries exactly when that does not apply, \<^verbatim>\<open>retries\<close> is
  truthy and the status matches \<^verbatim>\<open>retryMatch\<close> (by default 500 to 599); otherwise it goes on
  to the body. The redirect decrements a numeric \<^verbatim>\<open>follow\<close> and passes \<^verbatim>\<open>retries\<close> on, the
  retry decrements a numeric \<^verbatim>\<open>retries\<close> and passes \<^verbatim>\<open>follow\<close> on. A response that arrives
  when the request is destroyed is ignored: the attempt is as before and nothing is done.
\<close>

theorem classify_order:
  "(classify cfg fo re r = Redirect l \<longleftrightarrow>
      enabled fo \<and> followMatch cfg (statusCode r)
      \<and> map_of (res_headers r) ''location'' = Some l \<and> l \<noteq> [])
   \<and> (classify cfg fo re r = Retry \<longleftrightarrow>
      \<not> (enabled fo \<and> followMatch cfg (statusCode r)
         \<and> (\<exists>l. map_of (res_headers r) ''location'' = Some l \<and> l \<noteq> []))
      \<and> enabled re \<and> retryMatch cfg (statusCode r))
   \<and> (classify cfg fo re r = Proceed \<longleftrightarrow>
      \<not> (enabled fo \<and> followMatch cfg (statusCode r)
         \<and> (\<exists>l. map_of (res_headers r) ''location'' = Some l \<and> l \<noteq> []))
      \<and> \<not> (enabled re \<and> retryMatch cfg (statusCode r)))
   \<and> (default_followMatch st \<longleftrightarrow> st \<in> {301, 302, 307, 308})
   \<and> (default_retryMatch st \<longleftrightarrow> st \<in> {500..599})
   \<and> (\<not> destroyed a \<longrightarrow>
        snd (on_response cfg sa r a) =
          (case classify cfg (follow a) (retries a) r of
             Redirect l \<Rightarrow> Recurse l (redirect_options a)
           | Retry \<Rightarrow> Recurse (url a) (retry_options a)
           | Proceed \<Rightarrow> snd (start_body cfg sa r
                 (a\<lparr>res := Some r, timer := (if idleTimeout a \<noteq> 0
                              then Some (''Idle Timeout'', idleTimeout a) else None)\<rparr>))))
   \<and> opt_follow (redirect_options a) = Some (decrement (follow a))
   \<and> opt_retries (redirect_options a) = Some (retries a)
   \<and> opt_follow (retry_options a) = Some (follow a)
   \<and> opt_retries (retry_options a) = Some (decrement (retries a))
   \<and> (destroyed a \<longrightarrow> on_response cfg sa r a = (a, Nothing))"
proof (intro conjI)
  show "destroyed a \<longrightarrow> on_response cfg sa r a = (a, Nothing)"
    by (simp add: on_response_def)
  show "\<not> destroyed a \<longrightarrow>
        snd (on_response cfg sa r a) =
          (case classify cfg (follow a) (retries a) r of
             Redirect l \<Rightarrow> Recurse l (redirect_options a)
           | Retry \<Rightarrow> Recurse (url a) (retry_options a)
           | Proceed \<Rightarrow> snd (start_body cfg sa r
                 (a\<lparr>res := Some r, timer := (if idleTimeout a \<noteq> 0
                              then Some (''Idle Timeout'', idleTimeout a) else None)\<rparr>)))"
    using on_response_decides by blast
qed (auto simp: classify_cases default_followMatch_def default_retryMatch_def
       redirect_options_def retry_options_def)

theorem classify_order_witness:
  "\<not> destroyed waiting_attempt
   \<and> snd (on_response class_defaults False moved waiting_attempt)
       = Recurse ''other.example'' (redirect_options waiting_attempt)
   \<and> opt_follow (redirect_options waiting_attempt) = Some (Count 1)
   \<and> classify class_defaults (Count 0) (Count 1) \<lparr>statusCode = 503, res_headers = []\<rparr> = Retry
   \<and> classify class_defaults (Count 0) (Count 0) \<lparr>statusCode = 503, res_headers = []\<rparr> = Proceed
   \<and> destroyed (waiting_attempt\<lparr>destroyed := True\<rparr>)
   \<and> on_response class_defaults False moved (waiting_attempt\<lparr>destroyed := True\<rparr>)
       = (waiting_attempt\<lparr>destroyed := True\<rparr>, Nothing)"
  using classify_order [of class_defaults "Count 2" "Count 1" moved "''other.example''" 302
      waiting_attempt False]
    classify_order [of class_defaults "Count 0" "Count 1" "\<lparr>statusCode = 503, res_headers = []\<rparr>"
      "''other.example''" 503 waiting_attempt False]
    classify_order [of class_defaults "Count 0" "Count 0" "\<lparr>statusCode = 503, res_headers = []\<rparr>"
      "''other.example''" 503 waiting_attempt False]
    classify_order [of class_defaults "Count 2" "Count 1" moved "''other.example''" 302
      "waiting_attempt\<lparr>destroyed := True\<rparr>" False]
  by (simp add: waiting_attempt_def new_attempt_def class_defaults_def moved_def
        default_followMatch_def default_retryMatch_def no_options_def Let_def)

text \<open>
  The claim as it was stated fails in two places: a \<^verbatim>\<open>Location\<close> header that is present
  but empty does not redirect, and a response that arrives when the request is destroyed
  is dropped without reaching the body handling.
\<close>

theorem classify_counterexample:
  "enabled (Flag True)
   \<and> followMatch class_defaults (statusCode moved_nowhere)
   \<and> map_of (res_headers moved_nowhere) ''location'' \<noteq> None
   \<and> classify class_defaults (Flag True) (Flag False) moved_nowhere = Proceed
   \<and> on_response class_defaults False ok_response (waiting_attempt\<lparr>destroyed := True\<rparr>)
       = (waiting_attempt\<lparr>destroyed := True\<rparr>, Nothing)
   \<and> mode (waiting_attempt\<lparr>destroyed := True\<rparr>) = Waiting"
  by (simp add: classify_def moved_nowhere_def class_defaults_def default_followMatch_def
        on_response_def waiting_attempt_def new_attempt_def Let_def)

section \<open>Properties of the synchronous part\<close>

text \<open>
  Claim C9, as amended. When the body is a FormData object, every header that the form
  supplies is in the attempt's headers with the form's value, also where the caller or
  the defaults had set a header of the same name; every header of another name is what it
  would be without the body. The one name that an assignment cannot add is \<^verbatim>\<open>__proto__\<close>: a
  form header of this name is taken only when the headers have an own property of this
  name already.
\<close>

theorem form_headers_override:
  assumes "opt_data opts = Some (Form fh)" "distinct (map fst fh)"
  shows "map_of (merged_headers cfg env u opts hit) k =
           (case map_of fh k of
              Some v \<Rightarrow>
                if k = ''__proto__''
                   \<and> map_of (merged_headers cfg env u (opts\<lparr>opt_data := None\<rparr>) hit) k = None
                then None else Some v
            | None \<Rightarrow> map_of (merged_headers cfg env u (opts\<lparr>opt_data := None\<rparr>) hit) k)"
proof -
  define base where "base = merged_headers cfg env u (opts\<lparr>opt_data := None\<rparr>) hit"
  have "merged_headers cfg env u opts hit = assign_all fh base"
    using assms(1)
    by (simp add: base_def merged_headers_def with_body_def Let_def with_defaults_def
          target_host_def split: option.splits)
  then show ?thesis
    unfolding base_def [symmetric] by (simp add: map_of_assign_all [OF assms(2)])
qed

theorem form_headers_override_witness:
  "map_of (merged_headers class_defaults sample_env ''example.com'' upload_options None) ''X-Trace''
     = Some (HStr ''1'')
   \<and> map_of (merged_headers class_defaults sample_env ''example.com'' upload_options None)
        ''content-type'' = Some (HStr ''multipart/form-data; boundary=x'')"
  using form_headers_override [of upload_options
      "[(''content-type'', HStr ''multipart/form-data; boundary=x'')]"
      class_defaults sample_env "''example.com''" None "''X-Trace''"]
    form_headers_override [of upload_options
      "[(''content-type'', HStr ''multipart/form-data; boundary=x'')]"
      class_defaults sample_env "''example.com''" None "''content-type''"]
  by (simp add: upload_options_def no_options_def merged_headers_def with_body_def
        with_directives_def with_defaults_def add_defaults_def assign_all_def assign_each_def
        object_defs sample_env_def class_defaults_def Let_def)

text \<open>
  The claim as it was stated fails: the caller's own \<^verbatim>\<open>content-type\<close> is replaced by the
  form's.
\<close>

theorem form_headers_counterexample:
  "opt_headers upload_options
     = Some [(''content-type'', HStr ''text/plain''), (''X-Trace'', HStr ''1'')]
   \<and> map_of (merged_headers class_defaults sample_env ''example.com'' upload_options None)
        ''content-type'' = Some (HStr ''multipart/form-data; boundary=x'')"
  by (simp add: upload_options_def no_options_def merged_headers_def with_body_def
        with_directives_def with_defaults_def add_defaults_def assign_all_def assign_each_def
        object_defs sample_env_def class_defaults_def Let_def)

lemma validate_rejects:
  assumes "(k, v) \<in> set hs" "\<not> checkIsHttpToken env k \<or> checkInvalidHeaderChar env v"
  shows "\<exists>k' v'. (k', v') \<in> set hs \<and>
           (validate env hs = Some (InvalidHeaderName k') \<and> \<not> checkIsHttpToken env k'
            \<or> validate env hs = Some (InvalidHeaderValue k' v') \<and> checkInvalidHeaderChar env v')"
  using assms
proof (induction hs)
  case Nil
  then show ?case by simp
next
  case (Cons p hs)
  obtain k0 v0 where p: "p = (k0, v0)" by (cases p)
  show ?case
  proof (cases "\<not> checkIsHttpToken env k0 \<or> checkInvalidHeaderChar env v0")
    case True
    then show ?thesis by (auto simp: p)
  next
    case False
    with Cons.prems p have "(k, v) \<in> set hs" by auto
    from Cons.IH [OF this Cons.prems(2)] False show ?thesis by (auto simp: p)
  qed
qed

lemma acl_check_kind: "acl_check cfg h = Some e \<Longrightarrow> config_error e"
  by (auto simp: acl_check_def config_error_def split: if_splits)

lemma idle_run:
  assumes "attempts s = []"
  shows "run cfg env s evs = Some s' \<Longrightarrow> attempts s' = [] \<and> delivered s' = delivered s"
  using assms
proof (induction evs arbitrary: s)
  case Nil
  then show ?case by simp
next
  case (Cons p evs)
  obtain now ev where p: "p = (now, ev)" by (cases p)
  from Cons.prems obtain s1 where s1: "fire cfg env now s ev = Some s1"
    "run cfg env s1 evs = Some s'"
    by (auto simp: p split: option.splits)
  have "attempts s1 = [] \<and> delivered s1 = delivered s"
    using s1(1) Cons.prems(2)
    by (cases ev) (auto simp: fire_def announce_def split: if_splits)
  with Cons.IH [OF s1(2)] show ?case by simp
qed

text \<open>
  Claim C6, as amended. When the merged headers of a call contain a header whose name is
  not a token or whose value has an invalid character, the call of \<^verbatim>\<open>request\<close> opens no
  transport call (the list of attempts is as before) and calls the callback exactly once,
  before it returns, with the error of the first synchronous check that fails. The checks
  come in this order: the access lists, when the host is an IP address; the creation of
  the download file, when the target is a path; the validation of the headers. So the
  error is the one of the access lists when they block the host, else the one thrown by
  the creation of the file when it throws, and else the one of the validation loop, which
  names a merged header with an invalid name or value. Nothing depends on the retry
  budget, which is any value of \<open>opt_retries\<close> and \<open>defaultRetries\<close>; and when no attempt was
  in flight before, no later event (the signal, or an error of the download stream that
  the call has created) adds an attempt or an outcome.
\<close>

theorem invalid_header_fails:
  assumes "(k, v) \<in> set (merged_headers cfg env u opts
              (fst (dns_lookup (dnsTTL cfg) now (target_host env u opts) (dns_cache s))))"
    and "\<not> checkIsHttpToken env k \<or> checkInvalidHeaderChar env v"
  shows "\<exists>e. attempts (request cfg env now u opts s) = attempts s
     \<and> delivered (request cfg env now u opts s) = delivered s @ [failure e]
     \<and> (if isIP env (target_host env u opts) \<and> acl_check cfg (target_host env u opts) \<noteq> None
        then acl_check cfg (target_host env u opts) = Some e
        else if \<exists>p. opt_download opts = Some (Path p) \<and> createWriteStream_throws env p \<noteq> None
        then \<exists>p m. opt_download opts = Some (Path p)
               \<and> createWriteStream_throws env p = Some m \<and> e = StreamError m
        else validate env (for_in (merged_headers cfg env u opts
                 (fst (dns_lookup (dnsTTL cfg) now (target_host env u opts) (dns_cache s)))))
               = Some e
             \<and> (\<exists>k' v'. (k', v') \<in> set (merged_headers cfg env u opts
                   (fst (dns_lookup (dnsTTL cfg) now (target_host env u opts) (dns_cache s))))
                 \<and> (e = InvalidHeaderName k' \<and> \<not> checkIsHttpToken env k'
                    \<or> e = InvalidHeaderValue k' v' \<and> checkInvalidHeaderChar env v')))
     \<and> (attempts s = [] \<longrightarrow>
          (\<forall>evs s'. run cfg env (request cfg env now u opts s) evs = Some s'
             \<longrightarrow> attempts s' = [] \<and> delivered s' = delivered s @ [failure e]))"
proof -
  let ?host = "target_host env u opts"
  let ?found = "dns_lookup (dnsTTL cfg) now ?host (dns_cache s)"
  let ?hs = "merged_headers cfg env u opts (fst ?found)"
  let ?acl = "if isIP env ?host then acl_check cfg ?host else None"
  let ?thr = "case opt_download opts of Some (Path p) \<Rightarrow> createWriteStream_throws env p | _ \<Rightarrow> None"
  from assms(1) have "(k, v) \<in> set (for_in ?hs)" by (simp add: set_for_in)
  from validate_rejects [OF this assms(2)] obtain k' v' where
    v: "(k', v') \<in> set ?hs"
       "validate env (for_in ?hs) = Some (InvalidHeaderName k') \<and> \<not> checkIsHttpToken env k'
        \<or> validate env (for_in ?hs) = Some (InvalidHeaderValue k' v')
          \<and> checkInvalidHeaderChar env v'"
    by (auto simp: set_for_in)
  then obtain e0 where e0: "validate env (for_in ?hs) = Some e0"
    "e0 = InvalidHeaderName k' \<and> \<not> checkIsHttpToken env k'
       \<or> e0 = InvalidHeaderValue k' v' \<and> checkInvalidHeaderChar env v'"
    by auto
  define e where "e = (case ?acl of Some x \<Rightarrow> x | None \<Rightarrow>
                        (case ?thr of Some m \<Rightarrow> StreamError m | None \<Rightarrow> e0))"
  have att: "attempts (request cfg env now u opts s) = attempts s"
    and del: "delivered (request cfg env now u opts s) = delivered s @ [failure e]"
    using e0(1) by (auto simp: request_def Let_def e_def split: option.splits target.splits)
  have which: "if isIP env ?host \<and> acl_check cfg ?host \<noteq> None
        then acl_check cfg ?host = Some e
        else if \<exists>p. opt_download opts = Some (Path p) \<and> createWriteStream_throws env p \<noteq> None
        then \<exists>p m. opt_download opts = Some (Path p)
               \<and> createWriteStream_throws env p = Some m \<and> e = StreamError m
        else validate env (for_in ?hs) = Some e
             \<and> (\<exists>k' v'. (k', v') \<in> set ?hs
                 \<and> (e = InvalidHeaderName k' \<and> \<not> checkIsHttpToken env k'
                    \<or> e = InvalidHeaderValue k' v' \<and> checkInvalidHeaderChar env v'))"
  proof (cases "isIP env ?host \<and> acl_check cfg ?host \<noteq> None")
    case True
    then show ?thesis by (auto simp: e_def)
  next
    case no_acl: False
    then have acl: "?acl = None" by auto
    show ?thesis
    proof (cases "\<exists>p. opt_download opts = Some (Path p) \<and> createWriteStream_throws env p \<noteq> None")
      case True
      then show ?thesis using no_acl acl by (auto simp: e_def)
    next
      case False
      then have "?thr = None" by (auto split: option.splits target.splits)
      with acl have "e = e0" by (simp add: e_def)
      with False no_acl e0 v(1) show ?thesis by auto
    qed
  qed
  have later: "attempts s = [] \<longrightarrow>
          (\<forall>evs s'. run cfg env (request cfg env now u opts s) evs = Some s'
             \<longrightarrow> attempts s' = [] \<and> delivered s' = delivered s @ [failure e])"
  proof (intro allI impI)
    fix evs s' assume n: "attempts s = []"
      and r: "run cfg env (request cfg env now u opts s) evs = Some s'"
    from n att have 0: "attempts (request cfg env now u opts s) = []" by simp
    from idle_run [OF 0 r] del show "attempts s' = [] \<and> delivered s' = delivered s @ [failure e]"
      by simp
  qed
  from att del which later show ?thesis by blast
qed

theorem invalid_header_fails_witness:
  "attempts (first_call class_defaults sample_env 0 ''example.com'' bad_header_options) = []
   \<and> delivered (first_call class_defaults sample_env 0 ''example.com'' bad_header_options)
       = [failure (InvalidHeaderName ''X Bad'')]
   \<and> map_option delivered
       (run class_defaults sample_env
          (first_call class_defaults sample_env 0 ''example.com'' bad_download_options)
          [(1, DownloadError ''ENOENT''), (2, Abort)])
       = Some [failure (InvalidHeaderName ''X Bad'')]"
  using invalid_header_fails [of "''X Bad''" "HStr ''1''" class_defaults sample_env
      "''example.com''" bad_header_options 0 idle]
    invalid_header_fails [of "''X Bad''" "HStr ''1''" class_defaults sample_env
      "''example.com''" bad_download_options 0 idle]
  by (simp add: first_call_def request_def no_options_def idle_def class_defaults_def
      sample_env_def target_host_def dns_lookup_def merged_headers_def with_body_def
      with_directives_def with_defaults_def add_defaults_def assign_all_def assign_each_def
      object_defs new_attempt_def Let_def bad_header_options_def bad_download_options_def
      acl_check_def fire_def announce_def)

text \<open>
  The claim as it was stated fails: with a header name that is not a token among the
  merged headers, a call to an IP address that the blacklist blocks fails with the error
  of the blacklist, not with a validation error.
\<close>

theorem invalid_header_counterexample:
  "(''X Bad'', HStr ''1'')
     \<in> set (merged_headers blocking sample_env ''10.0.0.1'' bad_header_options None)
   \<and> checkIsHttpToken sample_env ''X Bad'' = False
   \<and> attempts (first_call blocking sample_env 0 ''10.0.0.1'' bad_header_options) = []
   \<and> delivered (first_call blocking sample_env 0 ''10.0.0.1'' bad_header_options)
       = [failure (Blacklisted ''10.0.0.1'')]"
  by (simp add: first_call_def request_def no_options_def idle_def class_defaults_def
      blocking_def sample_env_def target_host_def dns_lookup_def merged_headers_def
      with_body_def with_directives_def with_defaults_def add_defaults_def assign_all_def
      assign_each_def object_defs Let_def bad_header_options_def acl_check_def)
section \<open>Properties of the buffer mode\<close>

lemma perform_nothing:
  "perform cfg env now i (a', Nothing) s = s\<lparr>attempts := (attempts s)[i := a']\<rparr>"
  by (simp add: perform_def)

lemma perform_deliver:
  "perform cfg env now i (a', Deliver out) s =
     s\<lparr>attempts := (attempts s)[i := a'], delivered := delivered s @ [out]\<rparr>"
  by (simp add: perform_def)

lemma response_to_buffer:
  assumes "res a = None" "\<not> destroyed a" "\<not> callback_fired a" "\<not> download a" "\<not> ended a"
    "inflating a = None"
    and "classify cfg (follow a) (retries a) r = Proceed"
  shows "\<exists>a'. on_response cfg False r a = (a', Nothing)
           \<and> buffering_empty r (if autoError cfg \<and> \<not> successMatch cfg (statusCode r)
                                  then Some (HttpError (statusCode r)) else None) a'"
  using assms
  by (simp add: on_response_def start_body_def Let_def buffering_empty_def)

lemma data_keeps_empty:
  assumes "buffering_empty r e a"
  shows "buffering_empty r e (on_data [] a)"
  using assms by (simp add: buffering_empty_def on_data_def)

lemma end_of_empty:
  assumes "buffering_empty r e a"
  shows "\<exists>a'. on_end cfg env (a\<lparr>ended := True\<rparr>) =
            (a', Deliver \<lparr>err = e, resp = Some r, payload = Some (Buffer [])\<rparr>)
          \<and> inflating a' = None"
  using assms by (simp add: buffering_empty_def on_end_def Let_def)

lemma data_run:
  assumes "i < length (attempts s)" "buffering_empty r e (attempts s ! i)"
    and "\<forall>p\<in>set tcs. snd p = []"
  shows "\<exists>s'. run cfg env s (map (\<lambda>(t, c). (t, Data i c)) tcs @ rest) = run cfg env s' rest
           \<and> i < length (attempts s') \<and> buffering_empty r e (attempts s' ! i)
           \<and> delivered s' = delivered s"
  using assms
proof (induction tcs arbitrary: s)
  case Nil
  then show ?case by auto
next
  case (Cons p tcs)
  obtain t where p: "p = (t, [])" using Cons.prems(3) by (cases p) auto
  let ?s1 = "s\<lparr>attempts := (attempts s)[i := on_data [] (attempts s ! i)]\<rparr>"
  have f: "fire cfg env t s (Data i []) = Some ?s1"
    using Cons.prems(1,2) by (simp add: fire_def buffering_empty_def perform_nothing)
  have "\<exists>s'. run cfg env ?s1 (map (\<lambda>(t, c). (t, Data i c)) tcs @ rest) = run cfg env s' rest
           \<and> i < length (attempts s') \<and> buffering_empty r e (attempts s' ! i)
           \<and> delivered s' = delivered ?s1"
    by (rule Cons.IH) (use Cons.prems data_keeps_empty in auto)
  then show ?case using f by (simp add: p)
qed

text \<open>
  Claim C10. An attempt without a download stream receives its response, which is neither
  redirected nor retried, then any number of chunks that are all empty, then the end of the
  body: the callback is called once with the response and a buffer of length zero, and no
  buffer has been handed to zlib, whatever the content encoding of the response and the
  setting of \<^verbatim>\<open>autoDecompress\<close>.
\<close>

theorem empty_body_buffer:
  assumes "i < length (attempts s)"
    and "res (attempts s ! i) = None" "\<not> errored (attempts s ! i)"
      "\<not> destroyed (attempts s ! i)" "\<not> callback_fired (attempts s ! i)"
      "\<not> download (attempts s ! i)" "\<not> ended (attempts s ! i)"
      "inflating (attempts s ! i) = None"
    and "\<not> signal_aborted s"
    and "classify cfg (follow (attempts s ! i)) (retries (attempts s ! i)) r = Proceed"
    and "\<forall>p\<in>set tcs. snd p = []"
  shows "\<exists>s'. run cfg env s
               ((t0, Response i r) # map (\<lambda>(t, c). (t, Data i c)) tcs @ [(t1, End i)]) = Some s'
     \<and> delivered s' = delivered s @
          [\<lparr>err = (if autoError cfg \<and> \<not> successMatch cfg (statusCode r)
                   then Some (HttpError (statusCode r)) else None),
            resp = Some r, payload = Some (Buffer [])\<rparr>]
     \<and> inflating (attempts s' ! i) = None"
proof -
  let ?e = "if autoError cfg \<and> \<not> successMatch cfg (statusCode r)
            then Some (HttpError (statusCode r)) else None"
  obtain a1 where a1: "on_response cfg False r (attempts s ! i) = (a1, Nothing)"
    "buffering_empty r ?e a1"
    using response_to_buffer [OF assms(2,4,5,6,7,8,10)] by blast
  let ?s1 = "s\<lparr>attempts := (attempts s)[i := a1]\<rparr>"
  have f1: "fire cfg env t0 s (Response i r) = Some ?s1"
    using assms(1,2,3,9) a1(1) by (simp add: fire_def perform_nothing)
  obtain s2 where s2: "run cfg env ?s1 (map (\<lambda>(t, c). (t, Data i c)) tcs @ [(t1, End i)])
        = run cfg env s2 [(t1, End i)]"
    "i < length (attempts s2)" "buffering_empty r ?e (attempts s2 ! i)"
    "delivered s2 = delivered ?s1"
    using data_run [of i ?s1 r ?e tcs cfg env "[(t1, End i)]"] assms(1,11) a1(2) by auto
  obtain a3 where a3: "on_end cfg env ((attempts s2 ! i)\<lparr>ended := True\<rparr>) =
            (a3, Deliver \<lparr>err = ?e, resp = Some r, payload = Some (Buffer [])\<rparr>)"
    "inflating a3 = None"
    using end_of_empty [OF s2(3)] by blast
  let ?s3 = "s2\<lparr>attempts := (attempts s2)[i := a3],
               delivered := delivered s2 @ [\<lparr>err = ?e, resp = Some r, payload = Some (Buffer [])\<rparr>]\<rparr>"
  have f3: "fire cfg env t1 s2 (End i) = Some ?s3"
    using s2(2,3) a3(1) by (simp add: fire_def buffering_empty_def perform_deliver)
  have "run cfg env s
               ((t0, Response i r) # map (\<lambda>(t, c). (t, Data i c)) tcs @ [(t1, End i)]) = Some ?s3"
    using f1 s2(1) f3 by simp
  moreover have "delivered ?s3 = delivered s @ [\<lparr>err = ?e, resp = Some r, payload = Some (Buffer [])\<rparr>]"
    using s2(4) by simp
  moreover have "inflating (attempts ?s3 ! i) = None"
    using s2(2) a3(2) by simp
  ultimately show ?thesis by blast
qed

theorem empty_body_buffer_witness:
  "select_codec class_defaults sample_env gzipped = Some Gzip
   \<and> map_option delivered
       (run class_defaults sample_env
          (first_call class_defaults sample_env 0 ''example.com'' no_options)
          [(1, Response 0 gzipped), (2, Data 0 []), (3, End 0)])
      = Some [\<lparr>err = None, resp = Some gzipped, payload = Some (Buffer [])\<rparr>]"
proof -
  let ?s = "first_call class_defaults sample_env 0 ''example.com'' no_options"
  have s: "attempts ?s = [new_attempt class_defaults ''example.com'' no_options
              (defaultHeaders class_defaults) ''example.com'']"
      "delivered ?s = []" "\<not> signal_aborted ?s"
    by (simp_all add: first_call_def request_def no_options_def idle_def
      class_defaults_def sample_env_def target_host_def dns_lookup_def merged_headers_def
      with_body_def with_directives_def with_defaults_def add_defaults_def assign_all_def assign_each_def object_defs Let_def)
  have c: "classify class_defaults (follow (attempts ?s ! 0)) (retries (attempts ?s ! 0)) gzipped
      = Proceed"
    using s(1)
    by (simp add: classify_def new_attempt_def class_defaults_def no_options_def gzipped_def
        default_retryMatch_def Let_def)
  have a: "res (attempts ?s ! 0) = None" "\<not> errored (attempts ?s ! 0)"
      "\<not> destroyed (attempts ?s ! 0)" "\<not> callback_fired (attempts ?s ! 0)"
      "\<not> download (attempts ?s ! 0)" "\<not> ended (attempts ?s ! 0)"
      "inflating (attempts ?s ! 0) = None" "0 < length (attempts ?s)"
    using s(1) by (simp_all add: new_attempt_def no_options_def Let_def)
  have ae: "\<not> autoError class_defaults" by (simp add: class_defaults_def)
  from empty_body_buffer [OF a(8) a(1-7) s(3) c, of "[(2, [])]" sample_env 1 3]
  obtain s' where s': "run class_defaults sample_env ?s
        ((1, Response 0 gzipped) # map (\<lambda>(t, c). (t, Data 0 c)) [(2, [])] @ [(3, End 0)]) = Some s'"
    "delivered s' = delivered ?s @ [\<lparr>err = None, resp = Some gzipped, payload = Some (Buffer [])\<rparr>]"
    using ae by auto
  have "map_option delivered
       (run class_defaults sample_env ?s [(1, Response 0 gzipped), (2, Data 0 []), (3, End 0)])
      = Some [\<lparr>err = None, resp = Some gzipped, payload = Some (Buffer [])\<rparr>]"
    using s' s(2) by simp
  moreover have "select_codec class_defaults sample_env gzipped = Some Gzip"
    by (simp add: select_codec_def gzipped_def class_defaults_def sample_env_def)
  ultimately show ?thesis by simp
qed

section \<open>Properties of the abort signal\<close>

lemma silent_stays:
  assumes "silent a"
  shows "snd (handleTimeout msg ms (a\<lparr>timer := None\<rparr>)) = Nothing
       \<and> silent (fst (handleTimeout msg ms (a\<lparr>timer := None\<rparr>)))"
    and "snd (handleSocketError e (a\<lparr>errored := True\<rparr>)) = Nothing
       \<and> silent (fst (handleSocketError e (a\<lparr>errored := True\<rparr>)))"
    and "snd (fst (on_lookup cfg now address a c)) = Nothing
       \<and> silent (fst (fst (on_lookup cfg now address a c)))"
    and "on_response cfg sa r a = (a, Nothing)"
    and "silent (on_data chunk a)"
    and "snd (on_end cfg env (a\<lparr>ended := True\<rparr>)) = Nothing
       \<and> silent (fst (on_end cfg env (a\<lparr>ended := True\<rparr>)))"
    and "snd (on_inflated zerr d (a\<lparr>inflating := None\<rparr>)) = Nothing
       \<and> silent (fst (on_inflated zerr d (a\<lparr>inflating := None\<rparr>)))"
    and "snd (on_download_finish a) = Nothing \<and> silent (fst (on_download_finish a))"
    and "snd (on_download_error e a) = Nothing \<and> silent (fst (on_download_error e a))"
    and "on_abort a = (a, Nothing)"
  using assms
  by (auto simp: silent_def handleTimeout_def handleSocketError_def on_lookup_def
      handleIPError_def on_response_def on_data_def on_end_def on_inflated_def
      on_download_finish_def on_download_error_def on_abort_def Let_def
      split: option.splits mode.splits)

lemma broadcast_abort:
  "snd (broadcast aborter on_abort as) = map abort_outcome (filter abortable as)"
  by (induction as) (auto simp: on_abort_def abortable_def abort_outcome_def Let_def)

lemma broadcast_abort_attempts:
  "fst (broadcast aborter on_abort as) =
     map (\<lambda>a. if abortable a then a\<lparr>aborted := True, callback_fired := True, destroyed := True\<rparr>
               else a) as"
  by (induction as) (auto simp: on_abort_def abortable_def Let_def)

lemma registers_aborter:
  "\<not> destroyed a \<Longrightarrow> signal a \<Longrightarrow> classify cfg (follow a) (retries a) r = Proceed
     \<Longrightarrow> aborter (fst (on_response cfg sa r a))"
  by (simp add: on_response_def start_body_def on_abort_def Let_def split: option.splits)

lemma aborted_on_arrival:
  "\<not> destroyed a \<Longrightarrow> \<not> aborted a \<Longrightarrow> \<not> callback_fired a \<Longrightarrow> signal a
     \<Longrightarrow> classify cfg (follow a) (retries a) r = Proceed
     \<Longrightarrow> snd (on_response cfg True r a)
           = Deliver \<lparr>err = Some RequestAborted, resp = Some r, payload = None\<rparr>
         \<and> silent (fst (on_response cfg True r a))"
  by (simp add: on_response_def start_body_def on_abort_def silent_def Let_def
        split: option.splits)

lemma fire_abort:
  "\<not> signal_aborted s \<Longrightarrow>
     fire cfg env now s Abort =
       Some (s\<lparr>signal_aborted := True,
               attempts := map (\<lambda>a. if abortable a
                   then a\<lparr>aborted := True, callback_fired := True, destroyed := True\<rparr>
                   else a) (attempts s),
               delivered := delivered s @ map abort_outcome (filter abortable (attempts s))\<rparr>)"
  by (simp add: fire_def announce_def Let_def broadcast_abort broadcast_abort_attempts)

lemma one_abortable:
  assumes "latched s"
  shows "length (filter abortable (attempts s)) \<le> 1"
proof -
  have "length (filter abortable xs) \<le> length (filter live xs)" for xs
    by (induction xs) (auto simp: abortable_def live_def)
  from this [of "attempts s"] assms show ?thesis
    by (simp add: latched_def tokens_def)
qed

lemma start_body_res: "res (fst (start_body cfg sa r a)) = res a"
  by (simp add: start_body_def on_abort_def Let_def split: option.splits)

lemma start_body_mode:
  "mode (fst (start_body cfg sa r a)) = Buffering \<or> mode (fst (start_body cfg sa r a)) = Streaming"
  by (simp add: start_body_def on_abort_def Let_def split: option.splits)

lemma late_response:
  assumes "late_listener a" "res a = None"
  shows "late_listener (fst (on_response cfg sa r a))"
proof (cases "destroyed a")
  case True
  with assms(1) show ?thesis by (simp add: on_response_def)
next
  case False
  from assms have no: "\<not> aborter a" by (auto simp: late_listener_def)
  show ?thesis
  proof (cases "classify cfg (follow a) (retries a) r")
    case (Redirect l)
    with False no show ?thesis by (simp add: on_response_def late_listener_def Let_def)
  next
    case Retry
    with False no show ?thesis by (simp add: on_response_def late_listener_def Let_def)
  next
    case Proceed
    with False have "fst (on_response cfg sa r a)
        = fst (start_body cfg sa r (a\<lparr>res := Some r, timer := (if idleTimeout a \<noteq> 0
                              then Some (''Idle Timeout'', idleTimeout a) else None)\<rparr>))"
      by (simp add: on_response_def Let_def)
    then show ?thesis
      using start_body_mode [of cfg sa r "a\<lparr>res := Some r, timer := (if idleTimeout a \<noteq> 0
                              then Some (''Idle Timeout'', idleTimeout a) else None)\<rparr>"]
      by (simp add: late_listener_def start_body_res)
  qed
qed

lemma late_handlers:
  assumes "late_listener a"
  shows "late_listener (fst (handleTimeout msg ms (a\<lparr>timer := None\<rparr>)))"
    and "late_listener (fst (handleSocketError e (a\<lparr>errored := True\<rparr>)))"
    and "late_listener (fst (fst (on_lookup cfg now address a c)))"
    and "late_listener (on_data chunk a)"
    and "late_listener (fst (on_end cfg env (a\<lparr>ended := True\<rparr>)))"
    and "late_listener (fst (on_inflated zerr d (a\<lparr>inflating := None\<rparr>)))"
    and "late_listener (fst (on_download_finish a))"
    and "late_listener (fst (on_download_error e a))"
    and "late_listener (fst (on_abort a))"
  using assms
  by (auto simp: late_listener_def handleTimeout_def handleSocketError_def on_lookup_def
      handleIPError_def on_data_def on_end_def on_inflated_def
      on_download_finish_def on_download_error_def on_abort_def Let_def
      split: option.splits mode.splits)

lemma late_request:
  assumes "\<forall>a \<in> set (attempts s). late_listener a"
  shows "\<forall>a \<in> set (attempts (request cfg env now u opts s)). late_listener a"
  using assms
  by (auto simp: request_def Let_def new_attempt_def late_listener_def
        split: option.splits target.splits)

lemma late_perform:
  assumes "\<forall>a \<in> set (attempts s). late_listener a" "late_listener (fst result)"
  shows "\<forall>a \<in> set (attempts (perform cfg env now i result s)). late_listener a"
proof -
  let ?s1 = "s\<lparr>attempts := (attempts s)[i := fst result]\<rparr>"
  have 1: "\<forall>a \<in> set (attempts ?s1). late_listener a"
    using assms set_update_subset_insert [of "attempts s" i "fst result"] by auto
  show ?thesis
  proof (cases "snd result")
    case Nothing
    with 1 show ?thesis by (simp add: perform_def Let_def)
  next
    case (Deliver out)
    with 1 show ?thesis by (simp add: perform_def Let_def)
  next
    case (Recurse u opts)
    with late_request [OF 1] show ?thesis by (simp add: perform_def Let_def)
  qed
qed

lemma late_broadcast:
  assumes "\<And>a. late_listener a \<Longrightarrow> late_listener (fst (h a))"
    and "\<forall>a \<in> set as. late_listener a"
  shows "\<forall>a \<in> set (fst (broadcast listens h as)). late_listener a"
  using assms(2)
  by (induction as) (auto simp: Let_def assms(1))

lemma late_fire:
  assumes "\<forall>a \<in> set (attempts s). late_listener a" "fire cfg env now s ev = Some s'"
  shows "\<forall>a \<in> set (attempts s'). late_listener a"
proof -
  have at: "i < length (attempts s) \<Longrightarrow> late_listener (attempts s ! i)" for i
    using assms(1) by simp
  show ?thesis
  proof (cases ev)
    case (TimerFires i)
    with assms(2) obtain msg ms where i: "i < length (attempts s)"
      and s': "s' = perform cfg env now i
                 (handleTimeout msg ms ((attempts s ! i)\<lparr>timer := None\<rparr>)) s"
      by (auto simp: fire_def split: if_splits option.splits)
    show ?thesis
      unfolding s' by (rule late_perform [OF assms(1) late_handlers(1) [OF at [OF i]]])
  next
    case (ReqError i e)
    with assms(2) have i: "i < length (attempts s)"
      and s': "s' = perform cfg env now i
                 (handleSocketError e ((attempts s ! i)\<lparr>errored := True\<rparr>)) s"
      by (auto simp: fire_def split: if_splits)
    show ?thesis
      unfolding s' by (rule late_perform [OF assms(1) late_handlers(2) [OF at [OF i]]])
  next
    case (Lookup i address)
    with assms(2) have i: "i < length (attempts s)"
      and s': "s' = perform cfg env now i
                 (fst (on_lookup cfg now address (attempts s ! i) (dns_cache s)))
                 (s\<lparr>dns_cache := snd (on_lookup cfg now address (attempts s ! i) (dns_cache s))\<rparr>)"
      by (auto simp: fire_def Let_def split: if_splits)
    have "\<forall>a \<in> set (attempts (s\<lparr>dns_cache :=
              snd (on_lookup cfg now address (attempts s ! i) (dns_cache s))\<rparr>)). late_listener a"
      using assms(1) by simp
    from late_perform [OF this late_handlers(3) [OF at [OF i]]] show ?thesis
      unfolding s' .
  next
    case (Response i r)
    with assms(2) have i: "i < length (attempts s)" and n: "res (attempts s ! i) = None"
      and s': "s' = perform cfg env now i
                 (on_response cfg (signal_aborted s) r (attempts s ! i)) s"
      by (auto simp: fire_def split: if_splits)
    show ?thesis
      unfolding s' by (rule late_perform [OF assms(1) late_response [OF at [OF i] n]])
  next
    case (Data i chunk)
    with assms(2) have i: "i < length (attempts s)"
      and s': "s' = perform cfg env now i (on_data chunk (attempts s ! i), Nothing) s"
      by (auto simp: fire_def split: if_splits)
    show ?thesis
      unfolding s' using late_perform [OF assms(1), of "(on_data chunk (attempts s ! i), Nothing)"]
        late_handlers(4) [OF at [OF i]] by simp
  next
    case (End i)
    with assms(2) have i: "i < length (attempts s)"
      and s': "s' = perform cfg env now i (on_end cfg env ((attempts s ! i)\<lparr>ended := True\<rparr>)) s"
      by (auto simp: fire_def split: if_splits)
    show ?thesis
      unfolding s' by (rule late_perform [OF assms(1) late_handlers(5) [OF at [OF i]]])
  next
    case (Inflated i zerr d)
    with assms(2) have i: "i < length (attempts s)"
      and s': "s' = perform cfg env now i
                 (on_inflated zerr d ((attempts s ! i)\<lparr>inflating := None\<rparr>)) s"
      by (auto simp: fire_def split: if_splits)
    show ?thesis
      unfolding s' by (rule late_perform [OF assms(1) late_handlers(6) [OF at [OF i]]])
  next
    case DownloadFinish
    with assms(2) have s': "s' = announce finish_listener on_download_finish
        (s\<lparr>sink_closed := True\<rparr>)"
      by (auto simp: fire_def split: if_splits)
    show ?thesis
      unfolding s' using late_broadcast [of on_download_finish "attempts s" finish_listener]
        late_handlers(7) assms(1)
      by (simp add: announce_def Let_def)
  next
    case (DownloadError e)
    with assms(2) have s': "s' = announce error_listener (on_download_error e)
        (s\<lparr>sink_closed := True\<rparr>)"
      by (auto simp: fire_def split: if_splits)
    show ?thesis
      unfolding s' using late_broadcast [of "on_download_error e" "attempts s" error_listener]
        late_handlers(8) assms(1)
      by (simp add: announce_def Let_def)
  next
    case Abort
    with assms(2) have s': "s' = announce aborter on_abort (s\<lparr>signal_aborted := True\<rparr>)"
      by (auto simp: fire_def split: if_splits)
    show ?thesis
      unfolding s' using late_broadcast [of on_abort "attempts s" aborter]
        late_handlers(9) assms(1)
      by (simp add: announce_def Let_def)
  qed
qed

lemma late_run:
  assumes "\<forall>a \<in> set (attempts s). late_listener a"
  shows "run cfg env s evs = Some s' \<Longrightarrow> \<forall>a \<in> set (attempts s'). late_listener a"
  using assms
proof (induction evs arbitrary: s)
  case Nil
  then show ?case by simp
next
  case (Cons p evs)
  obtain now ev where p: "p = (now, ev)" by (cases p)
  from Cons.prems obtain s1 where s1: "fire cfg env now s ev = Some s1"
    "run cfg env s1 evs = Some s'"
    by (auto simp: p split: option.splits)
  from late_fire [OF Cons.prems(2) s1(1)] Cons.IH [OF s1(2)] show ?case by blast
qed

lemma late_first_call:
  assumes "run cfg env (first_call cfg env t u opts) evs = Some s'"
  shows "\<forall>a \<in> set (attempts s'). late_listener a"
proof -
  have "\<forall>a \<in> set (attempts (first_call cfg env t u opts)). late_listener a"
    unfolding first_call_def by (rule late_request) (simp add: idle_def)
  from late_run [OF this assms] show ?thesis .
qed

lemma abort_unheard:
  assumes "\<not> signal_aborted s" "\<forall>a \<in> set (attempts s). \<not> aborter a"
  shows "fire cfg env now s Abort = Some (s\<lparr>signal_aborted := True\<rparr>)"
proof -
  have "filter abortable (attempts s) = []"
    using assms(2) by (simp add: filter_empty_conv abortable_def)
  moreover have "map (\<lambda>a. if abortable a
                   then a\<lparr>aborted := True, callback_fired := True, destroyed := True\<rparr>
                   else a) (attempts s) = attempts s"
    using assms(2) by (simp add: map_idI abortable_def)
  ultimately show ?thesis
    using fire_abort [OF assms(1), of cfg env now] by simp
qed

text \<open>
  Claim C4, as amended. The abort listener of an attempt is registered when its response
  has arrived and is neither redirected nor retried. When the signal fires, every attempt
  whose listener is registered and which is neither aborted nor resolved has its request
  aborted and delivers one failure \<^verbatim>\<open>Request Aborted\<close> (there is at most one such attempt
  while the latch holds); an attempt that finds the signal aborted when it registers does
  the same at once. After that no handler of the attempt
  delivers or starts anything. On an attempt that is aborted or resolved already the
  listener does nothing. An attempt that has not registered its listener is not touched
  by the signal. In every state that a logical request reaches, an attempt with a
  registered listener has its response and is in stream mode or in buffer mode; and a
  signal that fires while no attempt has registered its listener changes nothing but the
  state of the signal.
\<close>

theorem abort_signal:
  "(\<not> destroyed a \<and> signal a \<and> classify cfg (follow a) (retries a) r = Proceed
      \<longrightarrow> aborter (fst (on_response cfg sa r a)))
   \<and> (\<not> signal_aborted s \<longrightarrow>
        fire cfg env now s Abort =
          Some (s\<lparr>signal_aborted := True,
                  attempts := map (\<lambda>a. if abortable a
                      then a\<lparr>aborted := True, callback_fired := True, destroyed := True\<rparr>
                      else a) (attempts s),
                  delivered := delivered s @ map abort_outcome (filter abortable (attempts s))\<rparr>))
   \<and> (abortable a \<longrightarrow> silent (a\<lparr>aborted := True, callback_fired := True, destroyed := True\<rparr>))
   \<and> (\<not> destroyed a \<and> \<not> aborted a \<and> \<not> callback_fired a \<and> signal a
        \<and> classify cfg (follow a) (retries a) r = Proceed
      \<longrightarrow> snd (on_response cfg True r a)
            = Deliver \<lparr>err = Some RequestAborted, resp = Some r, payload = None\<rparr>
          \<and> silent (fst (on_response cfg True r a)))
   \<and> (silent a \<longrightarrow>
        snd (handleTimeout msg ms (a\<lparr>timer := None\<rparr>)) = Nothing
        \<and> silent (fst (handleTimeout msg ms (a\<lparr>timer := None\<rparr>)))
        \<and> snd (handleSocketError e (a\<lparr>errored := True\<rparr>)) = Nothing
        \<and> silent (fst (handleSocketError e (a\<lparr>errored := True\<rparr>)))
        \<and> snd (fst (on_lookup cfg now address a c)) = Nothing
        \<and> silent (fst (fst (on_lookup cfg now address a c)))
        \<and> on_response cfg sa r a = (a, Nothing)
        \<and> silent (on_data chunk a)
        \<and> snd (on_end cfg env (a\<lparr>ended := True\<rparr>)) = Nothing
        \<and> silent (fst (on_end cfg env (a\<lparr>ended := True\<rparr>)))
        \<and> snd (on_inflated zerr d (a\<lparr>inflating := None\<rparr>)) = Nothing
        \<and> silent (fst (on_inflated zerr d (a\<lparr>inflating := None\<rparr>)))
        \<and> snd (on_download_finish a) = Nothing \<and> silent (fst (on_download_finish a))
        \<and> snd (on_download_error e a) = Nothing \<and> silent (fst (on_download_error e a)))
   \<and> (aborted a \<or> callback_fired a \<longrightarrow> on_abort a = (a, Nothing) \<and> \<not> abortable a)
   \<and> (latched s \<longrightarrow> length (filter abortable (attempts s)) \<le> 1)
   \<and> (run cfg env (first_call cfg env t u opts) evs = Some s \<longrightarrow>
        (\<forall>a \<in> set (attempts s).
            aborter a \<longrightarrow> res a \<noteq> None \<and> (mode a = Buffering \<or> mode a = Streaming)))
   \<and> (\<not> signal_aborted s \<and> (\<forall>a \<in> set (attempts s). \<not> aborter a) \<longrightarrow>
        fire cfg env now s Abort = Some (s\<lparr>signal_aborted := True\<rparr>))"
  (is "?reg \<and> ?fire \<and> ?now \<and> ?arrival \<and> ?after \<and> ?late \<and> ?one \<and> ?reach \<and> ?unheard")
proof -
  have 1: ?reg using registers_aborter by blast
  have 2: ?fire using fire_abort by blast
  have 3: ?now by (simp add: silent_def)
  have 4: ?arrival using aborted_on_arrival by blast
  have 5: ?after
  proof
    assume "silent a"
    note s = silent_stays [OF this]
    from s(1) s(2) s(3) s(4) s(5) s(6) s(7) s(8) s(9)
    show "snd (handleTimeout msg ms (a\<lparr>timer := None\<rparr>)) = Nothing
        \<and> silent (fst (handleTimeout msg ms (a\<lparr>timer := None\<rparr>)))
        \<and> snd (handleSocketError e (a\<lparr>errored := True\<rparr>)) = Nothing
        \<and> silent (fst (handleSocketError e (a\<lparr>errored := True\<rparr>)))
        \<and> snd (fst (on_lookup cfg now address a c)) = Nothing
        \<and> silent (fst (fst (on_lookup cfg now address a c)))
        \<and> on_response cfg sa r a = (a, Nothing)
        \<and> silent (on_data chunk a)
        \<and> snd (on_end cfg env (a\<lparr>ended := True\<rparr>)) = Nothing
        \<and> silent (fst (on_end cfg env (a\<lparr>ended := True\<rparr>)))
        \<and> snd (on_inflated zerr d (a\<lparr>inflating := None\<rparr>)) = Nothing
        \<and> silent (fst (on_inflated zerr d (a\<lparr>inflating := None\<rparr>)))
        \<and> snd (on_download_finish a) = Nothing \<and> silent (fst (on_download_finish a))
        \<and> snd (on_download_error e a) = Nothing \<and> silent (fst (on_download_error e a))"
      by blast
  qed
  have 6: ?late by (auto simp: on_abort_def abortable_def)
  have 7: ?one using one_abortable by blast
  have 8: ?reach using late_first_call [of cfg env t u opts evs s] by (simp add: late_listener_def)
  have 9: ?unheard using abort_unheard by blast
  show ?thesis
    by (rule conjI [OF 1], rule conjI [OF 2], rule conjI [OF 3], rule conjI [OF 4],
        rule conjI [OF 5], rule conjI [OF 6], rule conjI [OF 7], rule conjI [OF 8], rule 9)
qed

theorem abort_signal_witness:
  "snd (on_response class_defaults True ok_response signalled_attempt)
     = Deliver \<lparr>err = Some RequestAborted, resp = Some ok_response, payload = None\<rparr>
   \<and> map_option delivered
        (run class_defaults sample_env
          (first_call class_defaults sample_env 0 ''example.com'' signal_options)
          [(1, Response 0 ok_response), (3, Abort), (4, End 0)])
       = Some [\<lparr>err = Some RequestAborted, resp = Some ok_response, payload = None\<rparr>]"
proof -
  have pre: "\<not> destroyed signalled_attempt \<and> \<not> aborted signalled_attempt
      \<and> \<not> callback_fired signalled_attempt \<and> signal signalled_attempt
      \<and> classify class_defaults (follow signalled_attempt) (retries signalled_attempt) ok_response
          = Proceed"
    by (simp add: signalled_attempt_def new_attempt_def signal_options_def no_options_def
        class_defaults_def classify_def ok_response_def Let_def)
  have 1: "snd (on_response class_defaults True ok_response signalled_attempt)
     = Deliver \<lparr>err = Some RequestAborted, resp = Some ok_response, payload = None\<rparr>"
    using abort_signal [where a = signalled_attempt and cfg = class_defaults
        and r = ok_response, THEN conjunct2, THEN conjunct2, THEN conjunct2, THEN conjunct1]
      pre by blast
  have 2: "map_option delivered
        (run class_defaults sample_env
          (first_call class_defaults sample_env 0 ''example.com'' signal_options)
          [(1, Response 0 ok_response), (3, Abort), (4, End 0)])
       = Some [\<lparr>err = Some RequestAborted, resp = Some ok_response, payload = None\<rparr>]"
    by (simp add: first_call_def request_def signal_options_def no_options_def idle_def
      class_defaults_def sample_env_def target_host_def dns_lookup_def merged_headers_def
      with_body_def with_directives_def with_defaults_def add_defaults_def assign_all_def assign_each_def object_defs
      new_attempt_def Let_def fire_def announce_def perform_def on_response_def classify_def
      ok_response_def start_body_def default_successMatch_def on_data_def
      on_abort_def on_end_def handleSocketError_def)
  from 1 2 show ?thesis by (rule conjI)
qed

text \<open>
  The claim as it was stated fails: a signal that fires while the attempt waits for its
  response delivers nothing and leaves the request alone, and the timeout that follows is
  what the caller gets.
\<close>

theorem abort_counterexample:
  "opt_signal signal_options
   \<and> map_option delivered
       (run class_defaults sample_env
         (first_call class_defaults sample_env 0 ''example.com'' signal_options)
         [(1, Abort)]) = Some []
   \<and> map_option (map destroyed \<circ> attempts)
       (run class_defaults sample_env
         (first_call class_defaults sample_env 0 ''example.com'' signal_options)
         [(1, Abort)]) = Some [False]
   \<and> map_option delivered
       (run class_defaults sample_env
         (first_call class_defaults sample_env 0 ''example.com'' signal_options)
         [(1, Abort), (30, TimerFires 0)])
       = Some [failure (Timeout ''Request Timeout'' 30000)]"
  by (simp add: first_call_def request_def signal_options_def no_options_def idle_def
      class_defaults_def sample_env_def target_host_def dns_lookup_def merged_headers_def
      with_body_def with_directives_def with_defaults_def add_defaults_def assign_all_def assign_each_def object_defs
      new_attempt_def Let_def fire_def announce_def perform_def handleTimeout_def failure_def)

section \<open>Properties of the retry chain\<close>

lemma merged_in_candidates:
  "set (merged_headers cfg env u opts hit) \<subseteq> candidates cfg env u opts"
proof -
  let ?h0 = "case opt_headers opts of None \<Rightarrow> [] | Some hs \<Rightarrow> hs"
  let ?h1 = "with_directives env u (with_defaults cfg opts)"
  let ?h2 = "case hit of None \<Rightarrow> ?h1
             | Some x \<Rightarrow> AList.update ''Host'' (HStr (target_host env u opts)) ?h1"
  have 1: "set ?h1 \<subseteq> set ?h0 \<union> set (defaultHeaders cfg)
      \<union> set (map (\<lambda>(k, v). (k, HStr v)) (url_directives env u))"
    unfolding with_directives_def with_defaults_def
    using set_assign_each [of "map (\<lambda>(k, v). (k, HStr v)) (url_directives env u)"
        "add_defaults (defaultHeaders cfg) ?h0"]
      set_add_defaults [of "defaultHeaders cfg" ?h0]
    by blast
  have 2: "set ?h2 \<subseteq> insert (''Host'', HStr (target_host env u opts)) (set ?h1)"
    using set_update_subset [of "''Host''" "HStr (target_host env u opts)" ?h1]
    by (cases hit) auto
  have 3: "set (with_body cfg opts ?h2) \<subseteq> set ?h2
      \<union> (case opt_data opts of
          None \<Rightarrow> {}
        | Some (Form form_headers) \<Rightarrow> set form_headers
        | Some (Raw d) \<Rightarrow> {(''Content-Length'', HNum (length d))})"
  proof (cases "opt_data opts")
    case None
    then show ?thesis by (simp add: with_body_def)
  next
    case (Some b)
    show ?thesis
    proof (cases b)
      case (Raw d)
      then show ?thesis
        using Some set_update_subset [of "''Content-Length''" "HNum (length d)" ?h2]
        by (auto simp: with_body_def)
    next
      case (Form fh)
      then show ?thesis
        using Some set_assign_all [of fh ?h2] by (auto simp: with_body_def)
    qed
  qed
  have m: "merged_headers cfg env u opts hit = with_body cfg opts ?h2"
    by (simp add: merged_headers_def Let_def)
  define A where "A = set ?h0 \<union> set (defaultHeaders cfg)
      \<union> set (map (\<lambda>(k, v). (k, HStr v)) (url_directives env u))"
  define B where "B = (case opt_data opts of
          None \<Rightarrow> {}
        | Some (Form form_headers) \<Rightarrow> set form_headers
        | Some (Raw d) \<Rightarrow> {(''Content-Length'', HNum (length d))})"
  define S1 where "S1 = set ?h1"
  define S2 where "S2 = set ?h2"
  define S3 where "S3 = set (with_body cfg opts ?h2)"
  have "S1 \<subseteq> A" using 1 by (simp add: S1_def A_def)
  moreover have "S2 \<subseteq> insert (''Host'', HStr (target_host env u opts)) S1"
    using 2 by (simp add: S1_def S2_def)
  moreover have "S3 \<subseteq> S2 \<union> B" using 3 by (simp add: S3_def S2_def B_def)
  ultimately have "S3 \<subseteq> A \<union> {(''Host'', HStr (target_host env u opts)),
        (''Host'', HStr (url_hostname env u))} \<union> B"
    by blast
  then show ?thesis
    by (simp add: m S3_def A_def B_def candidates_def)
qed

lemma validate_accepts:
  "\<forall>(k, v) \<in> set hs. checkIsHttpToken env k \<and> \<not> checkInvalidHeaderChar env v
     \<Longrightarrow> validate env hs = None"
  by (induction hs) auto

lemma request_opens:
  assumes "passes cfg env u opts"
  shows "\<exists>c hs h. request cfg env now u opts s
            = s\<lparr>dns_cache := c, attempts := attempts s @ [new_attempt cfg u opts hs h]\<rparr>
          \<and> set hs \<subseteq> candidates cfg env u opts"
proof -
  let ?host = "target_host env u opts"
  let ?found = "dns_lookup (dnsTTL cfg) now ?host (dns_cache s)"
  let ?hs = "merged_headers cfg env u opts (fst ?found)"
  have sub: "set ?hs \<subseteq> candidates cfg env u opts" by (rule merged_in_candidates)
  have acl: "(if isIP env ?host then acl_check cfg ?host else None) = None"
    using assms by (simp add: passes_def)
  have thr: "(case opt_download opts of Some (Path p) \<Rightarrow> createWriteStream_throws env p
              | _ \<Rightarrow> None) = None"
    using assms by (auto simp: passes_def split: option.splits target.splits)
  have val: "validate env (for_in ?hs) = None"
    by (rule validate_accepts) (use assms sub in \<open>auto simp: passes_def set_for_in\<close>)
  have "request cfg env now u opts s
      = s\<lparr>dns_cache := snd ?found,
          attempts := attempts s @ [new_attempt cfg u opts ?hs
             (case fst ?found of None \<Rightarrow> ?host | Some address \<Rightarrow> address)]\<rparr>"
    using acl thr val by (simp add: request_def Let_def)
  with sub show ?thesis by blast
qed

lemma new_attempt_retrying:
  assumes p: "passes cfg env u opts" and hs: "set hs \<subseteq> candidates cfg env u opts"
    and n: "(case opt_retries opts of None \<Rightarrow> defaultRetries cfg | Some b \<Rightarrow> b) = Count (int n)"
    and t: "(case opt_timeout opts of None \<Rightarrow> defaultTimeout cfg | Some ms \<Rightarrow> ms) = ms"
  shows "retrying cfg env u ms n (new_attempt cfg u opts hs h)"
proof -
  let ?a = "new_attempt cfg u opts hs h"
  let ?o = "retry_options ?a"
  have f: "opt_headers ?o = Some hs" "opt_hostname ?o = None" "opt_data ?o = opt_data opts"
    "opt_download ?o = (if opt_download opts \<noteq> None then Some Stream else None)"
    by (simp_all add: retry_options_def new_attempt_def Let_def)
  have th: "target_host env u ?o = url_hostname env u"
    by (simp add: target_host_def f)
  have c: "candidates cfg env u ?o \<subseteq> candidates cfg env u opts"
    using hs by (auto simp: candidates_def f th)
  have "passes cfg env u ?o"
    using p c unfolding passes_def th f by (auto split: if_splits)
  then show ?thesis
    using n t by (simp add: retrying_def new_attempt_def Let_def)
qed

lemma last_failure_delivers:
  assumes a: "attempts s ! k = a" "k < length (attempts s)" and r: "retrying cfg env u ms 0 a"
    and f: "f = TimedOut \<longrightarrow> ms \<noteq> 0"
  shows "\<exists>a'. fire cfg env now s (failing_event k f)
           = Some (s\<lparr>attempts := (attempts s)[k := a'],
                     delivered := delivered s @ [failure (failing_error ms f)]\<rparr>)
         \<and> retries a' = Count 0"
proof (cases f)
  case (Refused e)
  show ?thesis
    by (rule exI [of _ "a\<lparr>errored := True, aborted := True, timer := None,
                          callback_fired := True\<rparr>"])
      (use a r Refused in \<open>simp add: fire_def perform_def retrying_def handleSocketError_def
          Let_def\<close>)
next
  case TimedOut
  show ?thesis
    by (rule exI [of _ "a\<lparr>timer := None, aborted := True, destroyed := True,
                          callback_fired := True\<rparr>"])
      (use a r f TimedOut in \<open>simp add: fire_def perform_def retrying_def handleTimeout_def
          Let_def\<close>)
qed

lemma failure_retries:
  assumes a: "attempts s ! k = a" "k < length (attempts s)"
    and r: "retrying cfg env u ms (Suc n) a"
    and f: "f = TimedOut \<longrightarrow> ms \<noteq> 0"
  shows "\<exists>a'. fire cfg env now s (failing_event k f)
           = Some (request cfg env now u (retry_options a) (s\<lparr>attempts := (attempts s)[k := a']\<rparr>))
         \<and> retries a' = Count (int (Suc n))"
proof (cases f)
  case (Refused e)
  show ?thesis
    by (rule exI [of _ "a\<lparr>errored := True, aborted := True, timer := None,
                          callback_fired := True\<rparr>"])
      (use a r Refused in \<open>simp add: fire_def perform_def retrying_def handleSocketError_def
          Let_def retry_options_def\<close>)
next
  case TimedOut
  show ?thesis
    by (rule exI [of _ "a\<lparr>timer := None, aborted := True, destroyed := True,
                          callback_fired := True\<rparr>"])
      (use a r f TimedOut in \<open>simp add: fire_def perform_def retrying_def handleTimeout_def
          Let_def retry_options_def\<close>)
qed

lemma retry_budget:
  assumes "retrying cfg env u ms (Suc n) a"
  shows "(case opt_retries (retry_options a) of None \<Rightarrow> defaultRetries cfg | Some b \<Rightarrow> b)
           = Count (int n)"
    and "(case opt_timeout (retry_options a) of None \<Rightarrow> defaultTimeout cfg | Some t \<Rightarrow> t) = ms"
  using assms by (simp_all add: retrying_def retry_options_def)

lemma countdown_step:
  "map (\<lambda>j. Count (int (Suc n) - int j)) [0..<Suc n + 1]
     = Count (int (Suc n)) # map (\<lambda>j. Count (int n - int j)) [0..<n + 1]"
proof -
  have "[0..<Suc (Suc n)] = 0 # [Suc 0..<Suc (Suc n)]"
    by (rule upt_conv_Cons) simp
  also have "[Suc 0..<Suc (Suc n)] = map Suc [0..<Suc n]"
    by (simp only: map_Suc_upt)
  finally have e: "[0..<Suc (Suc n)] = 0 # map Suc [0..<Suc n]" .
  show ?thesis by (simp add: e comp_def del: upt_Suc)
qed

lemma failing_run:
  assumes "attempts s = as @ [a]" "retrying cfg env u ms n a"
    and "\<forall>j. fs j = TimedOut \<longrightarrow> ms \<noteq> 0"
  shows "\<exists>s'. run cfg env s
                 (map (\<lambda>j. (ts j, failing_event j (fs j))) [length as..<length as + n + 1])
               = Some s'
            \<and> length (attempts s') = length as + n + 1
            \<and> delivered s' = delivered s @ [failure (failing_error ms (fs (length as + n)))]
            \<and> map retries (attempts s')
                = map retries as @ map (\<lambda>j. Count (int n - int j)) [0..<n + 1]"
  using assms(1,2)
proof (induction n arbitrary: s as a)
  case 0
  let ?k = "length as"
  have at: "attempts s ! ?k = a" "?k < length (attempts s)" using "0.prems"(1) by simp_all
  from last_failure_delivers [OF at "0.prems"(2), of "fs ?k" "ts ?k"] assms(3)
  obtain a' where a': "fire cfg env (ts ?k) s (failing_event ?k (fs ?k))
       = Some (s\<lparr>attempts := (attempts s)[?k := a'],
                 delivered := delivered s @ [failure (failing_error ms (fs ?k))]\<rparr>)"
    "retries a' = Count 0"
    by blast
  show ?case using a' "0.prems"(1) by simp
next
  case (Suc n)
  let ?k = "length as"
  have at: "attempts s ! ?k = a" "?k < length (attempts s)" using Suc.prems(1) by simp_all
  have p: "passes cfg env u (retry_options a)" using Suc.prems(2) by (simp add: retrying_def)
  from failure_retries [OF at Suc.prems(2), of "fs ?k" "ts ?k"] assms(3)
  obtain a1 where f: "fire cfg env (ts ?k) s (failing_event ?k (fs ?k))
       = Some (request cfg env (ts ?k) u (retry_options a) (s\<lparr>attempts := (attempts s)[?k := a1]\<rparr>))"
    and a1: "retries a1 = Count (int (Suc n))"
    by blast
  let ?s1 = "s\<lparr>attempts := (attempts s)[?k := a1]\<rparr>"
  from request_opens [OF p, of "ts ?k" ?s1]
  obtain c hs h where r: "request cfg env (ts ?k) u (retry_options a) ?s1
      = ?s1\<lparr>dns_cache := c, attempts := attempts ?s1 @ [new_attempt cfg u (retry_options a) hs h]\<rparr>"
    "set hs \<subseteq> candidates cfg env u (retry_options a)"
    by blast
  let ?b = "new_attempt cfg u (retry_options a) hs h"
  let ?s2 = "?s1\<lparr>dns_cache := c, attempts := attempts ?s1 @ [?b]\<rparr>"
  have b: "retrying cfg env u ms n ?b"
    by (rule new_attempt_retrying [OF p r(2) retry_budget [OF Suc.prems(2)]])
  have a2: "attempts ?s2 = (as @ [a1]) @ [?b]" using Suc.prems(1) by simp
  from Suc.IH [OF a2 b]
  obtain s' where s': "run cfg env ?s2
        (map (\<lambda>j. (ts j, failing_event j (fs j))) [Suc ?k..<Suc ?k + n + 1]) = Some s'"
    "length (attempts s') = Suc ?k + n + 1"
    "delivered s' = delivered ?s2 @ [failure (failing_error ms (fs (Suc ?k + n)))]"
    "map retries (attempts s')
       = map retries (as @ [a1]) @ map (\<lambda>j. Count (int n - int j)) [0..<n + 1]"
    by auto
  have l: "[?k..<?k + Suc n + 1] = ?k # [Suc ?k..<Suc ?k + n + 1]"
    by (simp add: upt_rec)
  have "run cfg env s (map (\<lambda>j. (ts j, failing_event j (fs j))) [?k..<?k + Suc n + 1]) = Some s'"
    unfolding l using f r(1) s'(1) by simp
  moreover have "length (attempts s') = ?k + Suc n + 1" using s'(2) by simp
  moreover have "delivered s' = delivered s @ [failure (failing_error ms (fs (?k + Suc n)))]"
    using s'(3) by simp
  moreover have "map retries (attempts s')
       = map retries as @ map (\<lambda>j. Count (int (Suc n) - int j)) [0..<Suc n + 1]"
    unfolding countdown_step using s'(4) a1 by simp
  ultimately show ?case by blast
qed

text \<open>
  Claim C2. The retry budget is the number \<open>N\<close>, every call of the chain passes the
  synchronous checks, and the transport fails every attempt, either with an error on the
  request or by the first-byte timeout (which needs a timeout other than 0). Then the
  run of these \<open>N + 1\<close> failures is possible, it makes exactly \<open>N + 1\<close> attempts, whose budgets
  count down from \<open>N\<close> to 0, and its only outcome is the failure of the last attempt.
\<close>

theorem retries_exhausted:
  assumes "passes cfg env u opts"
    and "(case opt_retries opts of None \<Rightarrow> defaultRetries cfg | Some b \<Rightarrow> b) = Count (int N)"
    and "(case opt_timeout opts of None \<Rightarrow> defaultTimeout cfg | Some t \<Rightarrow> t) = ms"
    and "\<forall>j. fs j = TimedOut \<longrightarrow> ms \<noteq> 0"
  shows "\<exists>s'. run cfg env (first_call cfg env t0 u opts)
               (map (\<lambda>j. (ts j, failing_event j (fs j))) [0..<N + 1]) = Some s'
     \<and> length (attempts s') = N + 1
     \<and> map retries (attempts s') = map (\<lambda>j. Count (int N - int j)) [0..<N + 1]
     \<and> delivered s' = [failure (failing_error ms (fs N))]"
proof -
  from request_opens [OF assms(1), of t0 idle]
  obtain c hs h where r: "first_call cfg env t0 u opts
      = idle\<lparr>dns_cache := c, attempts := attempts idle @ [new_attempt cfg u opts hs h]\<rparr>"
    "set hs \<subseteq> candidates cfg env u opts"
    unfolding first_call_def by blast
  let ?a = "new_attempt cfg u opts hs h"
  have a: "attempts (first_call cfg env t0 u opts) = [] @ [?a]"
    and d: "delivered (first_call cfg env t0 u opts) = []"
    by (simp_all add: r(1) idle_def)
  have "retrying cfg env u ms N ?a"
    by (rule new_attempt_retrying [OF assms(1) r(2) assms(2,3)])
  from failing_run [OF a this assms(4), of ts]
  obtain s' where "run cfg env (first_call cfg env t0 u opts)
        (map (\<lambda>j. (ts j, failing_event j (fs j))) [0..<N + 1]) = Some s'"
    "length (attempts s') = N + 1"
    "delivered s' = delivered (first_call cfg env t0 u opts) @ [failure (failing_error ms (fs N))]"
    "map retries (attempts s') = map (\<lambda>j. Count (int N - int j)) [0..<N + 1]"
    by auto
  with d show ?thesis by auto
qed

theorem retries_exhausted_witness:
  "\<exists>s'. run class_defaults sample_env
           (first_call class_defaults sample_env 0 ''example.com'' two_retries)
           [(1, ReqError 0 ''ECONNRESET''), (2, TimerFires 1), (3, ReqError 2 ''ECONNREFUSED'')]
          = Some s'
     \<and> length (attempts s') = 3
     \<and> map retries (attempts s') = [Count 2, Count 1, Count 0]
     \<and> delivered s' = [failure (SocketError ''ECONNREFUSED'')]"
proof -
  have p: "passes class_defaults sample_env ''example.com'' two_retries"
    by (simp add: passes_def candidates_def two_retries_def no_options_def class_defaults_def
        sample_env_def target_host_def acl_check_def)
  have n: "(case opt_retries two_retries of None \<Rightarrow> defaultRetries class_defaults | Some b \<Rightarrow> b)
      = Count (int 2)"
    by (simp add: two_retries_def)
  have t: "(case opt_timeout two_retries of None \<Rightarrow> defaultTimeout class_defaults | Some t \<Rightarrow> t)
      = 30000"
    by (simp add: two_retries_def no_options_def class_defaults_def)
  have f: "\<forall>j. three_failures j = TimedOut \<longrightarrow> (30000::nat) \<noteq> 0" by simp
  have l: "[0..<2 + 1] = [0, 1, 2::nat]" by (simp add: upt_rec)
  from retries_exhausted [OF p n t f, of 0 "\<lambda>j. real j + 1"]
  show ?thesis
    unfolding l by (simp add: three_failures_def)
qed

section \<open>The resolution latch\<close>

text \<open>
  Claim C1 fails on the code. The download file is given by a path in a directory that
  does not exist, and redirects are followed. The stream reports its error while the
  request waits for the response: the callback is called with that error, and the request
  goes on. The response is a redirect: the response handler starts a new call without
  looking at \<^verbatim>\<open>callback_fired\<close>. The new call fails to connect: the callback is called a
  second time.
\<close>

theorem double_delivery:
  "map_option delivered
     (run class_defaults sample_env
        (first_call class_defaults sample_env 0 ''example.com'' download_options)
        [(1, DownloadError ''ENOENT''), (2, Response 0 moved), (3, ReqError 1 ''ECONNREFUSED'')])
     = Some [failure (StreamError ''ENOENT''), failure (SocketError ''ECONNREFUSED'')]"
  by (simp add: first_call_def request_def download_options_def no_options_def idle_def
      class_defaults_def sample_env_def target_host_def dns_lookup_def merged_headers_def
      with_body_def with_directives_def with_defaults_def add_defaults_def assign_all_def assign_each_def object_defs
      new_attempt_def Let_def fire_def announce_def on_download_error_def perform_def
      on_response_def classify_def moved_def default_followMatch_def redirect_options_def
      handleSocketError_def failure_def)

lemma filter_update_length:
  "i < length xs \<Longrightarrow>
     length (filter P (xs[i := y])) + (if P (xs ! i) then 1 else 0)
       = length (filter P xs) + (if P y then 1 else 0)"
proof (induction xs arbitrary: i)
  case Nil
  then show ?case by simp
next
  case (Cons x xs)
  show ?case
  proof (cases i)
    case 0
    then show ?thesis by simp
  next
    case (Suc j)
    with Cons.prems have "j < length xs" by simp
    from Cons.IH [OF this] Suc show ?thesis by simp
  qed
qed

lemma request_latch:
  assumes "\<forall>a \<in> set (attempts s). sound a"
  shows "(\<forall>a \<in> set (attempts (request cfg env now u opts s)). sound a)
       \<and> tokens (request cfg env now u opts s) \<le> tokens s + 1"
  using assms
  by (auto simp: request_def Let_def tokens_def sound_def new_attempt_def live_def
        split: option.splits target.splits)

lemma perform_latch:
  assumes i: "i < length (attempts s)" and l: "latched s"
    and g: "guarded (attempts s ! i) result"
  shows "latched (perform cfg env now i result s)"
proof -
  obtain a' act where r: "result = (a', act)" by (cases result)
  let ?a = "attempts s ! i"
  let ?s1 = "s\<lparr>attempts := (attempts s)[i := a']\<rparr>"
  have snd1: "\<forall>a \<in> set (attempts ?s1). sound a"
    using l g i by (auto simp: latched_def guarded_def r dest!: set_update_subset_insert [THEN subsetD])
  have cnt: "length (filter live (attempts ?s1)) + (if live ?a then 1 else 0)
       = length (filter live (attempts s)) + (if live a' then 1 else 0)"
    using filter_update_length [OF i, of live a'] by simp
  show ?thesis
  proof (cases act)
    case Nothing
    then have "live a' \<longrightarrow> live ?a" using g by (simp add: guarded_def r)
    then have "tokens ?s1 \<le> tokens s" using cnt by (auto simp: tokens_def split: if_splits)
    then show ?thesis using snd1 l Nothing by (simp add: perform_def r latched_def)
  next
    case (Deliver out)
    then have "live ?a" "\<not> live a'" using g by (simp_all add: guarded_def r)
    then have "tokens (?s1\<lparr>delivered := delivered ?s1 @ [out]\<rparr>) \<le> tokens s"
      using cnt by (simp add: tokens_def)
    then show ?thesis using snd1 l Deliver by (simp add: perform_def r latched_def)
  next
    case (Recurse u opts)
    then have "live ?a" "\<not> live a'" using g by (simp_all add: guarded_def r)
    then have "tokens ?s1 + 1 \<le> tokens s" using cnt by (simp add: tokens_def)
    moreover note request_latch [OF snd1, of cfg env now u opts]
    ultimately show ?thesis using l Recurse by (simp add: perform_def r latched_def)
  qed
qed

lemma guarded_timeout:
  "sound a \<Longrightarrow> guarded a (handleTimeout msg ms (a\<lparr>timer := None\<rparr>))"
  by (auto simp: guarded_def sound_def live_def handleTimeout_def Let_def)

lemma guarded_socket_error:
  "sound a \<Longrightarrow> guarded a (handleSocketError e (a\<lparr>errored := True\<rparr>))"
  by (auto simp: guarded_def sound_def live_def handleSocketError_def Let_def)

lemma guarded_lookup:
  "sound a \<Longrightarrow> guarded a (fst (on_lookup cfg now address a c))"
  by (auto simp: guarded_def sound_def live_def on_lookup_def handleIPError_def Let_def
        split: option.splits)

lemma start_body_fired:
  "callback_fired (fst (start_body cfg sa r a))
     = (callback_fired a \<or> (signal a \<and> sa \<and> \<not> aborted a))"
  by (simp add: start_body_def on_abort_def Let_def split: option.splits)

lemma start_body_action:
  "snd (start_body cfg sa r a)
     = (if signal a \<and> sa \<and> \<not> aborted a \<and> \<not> callback_fired a
        then Deliver \<lparr>err = Some RequestAborted, resp = res a, payload = None\<rparr> else Nothing)"
  by (simp add: start_body_def on_abort_def Let_def)

lemma guarded_start_body:
  assumes "res a \<noteq> None"
  shows "guarded a (start_body cfg sa r a)"
  using assms
  by (simp add: guarded_def sound_def live_def start_body_res start_body_fired start_body_action)

lemma guarded_response:
  assumes "sound a" "res a = None" "\<not> errored a"
  shows "guarded a (on_response cfg sa r a)"
proof (cases "destroyed a")
  case True
  then show ?thesis using assms(1) by (simp add: on_response_def guarded_def)
next
  case False
  with assms have l: "live a" by (auto simp: sound_def live_def)
  let ?a1 = "a\<lparr>res := Some r, timer := (if idleTimeout a \<noteq> 0
                              then Some (''Idle Timeout'', idleTimeout a) else None)\<rparr>"
  show ?thesis
  proof (cases "classify cfg (follow a) (retries a) r")
    case (Redirect l')
    then show ?thesis
      using False l by (simp add: on_response_def guarded_def sound_def live_def Let_def)
  next
    case Retry
    then show ?thesis
      using False l by (simp add: on_response_def guarded_def sound_def live_def Let_def)
  next
    case Proceed
    define a1 where "a1 = ?a1"
    have la: "live a1 = live a" by (simp add: a1_def live_def)
    have "guarded a1 (start_body cfg sa r a1)"
      by (rule guarded_start_body) (simp add: a1_def)
    then have "guarded a (start_body cfg sa r a1)"
      unfolding guarded_def la .
    moreover have "on_response cfg sa r a = start_body cfg sa r a1"
      using False Proceed by (simp add: on_response_def Let_def a1_def)
    ultimately show ?thesis by simp
  qed
qed

lemma guarded_data:
  "sound a \<Longrightarrow> guarded a (on_data chunk a, Nothing)"
  by (auto simp: guarded_def sound_def live_def on_data_def split: mode.splits)

lemma guarded_end:
  "sound a \<Longrightarrow> res a \<noteq> None \<Longrightarrow> guarded a (on_end cfg env (a\<lparr>ended := True\<rparr>))"
  by (auto simp: guarded_def sound_def live_def on_end_def Let_def
        split: mode.splits option.splits)

lemma guarded_inflated:
  "sound a \<Longrightarrow> inflating a \<noteq> None \<Longrightarrow>
     guarded a (on_inflated zerr d (a\<lparr>inflating := None\<rparr>))"
  by (auto simp: guarded_def sound_def live_def on_inflated_def)

lemma guarded_finish:
  "sound a \<Longrightarrow> finish_listener a \<Longrightarrow> guarded a (on_download_finish a)"
  by (auto simp: guarded_def sound_def live_def on_download_finish_def Let_def)

lemma guarded_abort:
  "sound a \<Longrightarrow> guarded a (on_abort a)"
  by (auto simp: guarded_def sound_def live_def on_abort_def)

lemma broadcast_latch:
  assumes "\<forall>a \<in> set as. sound a"
    and "\<And>a. sound a \<Longrightarrow> listens a \<Longrightarrow> guarded a (h a)"
    and "\<And>a u opts. snd (h a) \<noteq> Recurse u opts"
  shows "(\<forall>a \<in> set (fst (broadcast listens h as)). sound a)
       \<and> length (snd (broadcast listens h as))
           + length (filter live (fst (broadcast listens h as)))
          \<le> length (filter live as)"
  using assms(1)
proof (induction as)
  case Nil
  then show ?case by simp
next
  case (Cons a as)
  let ?r = "if listens a then h a else (a, Nothing)"
  have g: "guarded a ?r"
    using assms(2) [of a] Cons.prems by (auto simp: guarded_def)
  have nr: "\<And>u opts. snd ?r \<noteq> Recurse u opts" using assms(3) by simp
  have ih: "(\<forall>a \<in> set (fst (broadcast listens h as)). sound a)
       \<and> length (snd (broadcast listens h as))
           + length (filter live (fst (broadcast listens h as)))
          \<le> length (filter live as)"
    using Cons.IH Cons.prems by simp
  have one: "length (case snd ?r of Deliver out \<Rightarrow> [out] | _ \<Rightarrow> [])
        + (if live (fst ?r) then 1 else 0) \<le> (if live a then 1 else 0)"
    using g nr by (cases "snd ?r") (auto simp: guarded_def)
  have s: "sound (fst ?r)" using g by (simp add: guarded_def)
  show ?case
    using ih one s by (simp add: Let_def del: if_split split: if_splits) 
qed

lemma latched_cache: "latched (s\<lparr>dns_cache := c\<rparr>) = latched s"
  by (simp add: latched_def tokens_def)

lemma announce_latch:
  assumes l: "latched s"
    and g: "\<And>a. sound a \<Longrightarrow> listens a \<Longrightarrow> guarded a (h a)"
    and nr: "\<And>a u opts. snd (h a) \<noteq> Recurse u opts"
  shows "latched (announce listens h s)"
proof -
  from l have s: "\<forall>a \<in> set (attempts s). sound a" and t: "tokens s \<le> 1"
    by (simp_all add: latched_def)
  from broadcast_latch [OF s g nr, of listens]
  have b: "\<forall>a \<in> set (fst (broadcast listens h (attempts s))). sound a"
    "length (snd (broadcast listens h (attempts s)))
       + length (filter live (fst (broadcast listens h (attempts s))))
      \<le> length (filter live (attempts s))"
    by simp_all
  show ?thesis
    using b t by (simp add: latched_def announce_def Let_def tokens_def)
qed

lemma abort_never_recurses: "snd (on_abort a) \<noteq> Recurse u opts"
  by (simp add: on_abort_def)

lemma finish_never_recurses: "snd (on_download_finish a) \<noteq> Recurse u opts"
  by (simp add: on_download_finish_def Let_def)

lemma fire_latch:
  assumes l: "latched s" and f: "fire cfg env now s ev = Some s'"
    and n: "\<And>e. ev \<noteq> DownloadError e"
  shows "latched s'"
proof -
  have snd_at: "\<And>i. i < length (attempts s) \<Longrightarrow> sound (attempts s ! i)"
    using l by (simp add: latched_def)
  show ?thesis
  proof (cases ev)
    case (TimerFires i)
    with f obtain msg ms where i: "i < length (attempts s)"
      and s': "s' = perform cfg env now i (handleTimeout msg ms ((attempts s ! i)\<lparr>timer := None\<rparr>)) s"
      by (auto simp: fire_def split: if_splits option.splits)
    show ?thesis unfolding s'
      by (rule perform_latch [OF i l guarded_timeout [OF snd_at [OF i]]])
  next
    case (ReqError i e)
    with f have i: "i < length (attempts s)"
      and s': "s' = perform cfg env now i (handleSocketError e ((attempts s ! i)\<lparr>errored := True\<rparr>)) s"
      by (auto simp: fire_def split: if_splits)
    show ?thesis unfolding s'
      by (rule perform_latch [OF i l guarded_socket_error [OF snd_at [OF i]]])
  next
    case (Lookup i address)
    let ?r = "on_lookup cfg now address (attempts s ! i) (dns_cache s)"
    from Lookup f have i: "i < length (attempts s)"
      and s': "s' = perform cfg env now i (fst ?r) (s\<lparr>dns_cache := snd ?r\<rparr>)"
      by (auto simp: fire_def Let_def split: if_splits)
    have "latched (perform cfg env now i (fst ?r) (s\<lparr>dns_cache := snd ?r\<rparr>))"
      by (rule perform_latch) (use i l guarded_lookup [OF snd_at [OF i]] in \<open>simp_all add: latched_cache\<close>)
    then show ?thesis unfolding s' .
  next
    case (Response i r)
    with f have i: "i < length (attempts s)" and p: "res (attempts s ! i) = None"
        "\<not> errored (attempts s ! i)"
      and s': "s' = perform cfg env now i (on_response cfg (signal_aborted s) r (attempts s ! i)) s"
      by (auto simp: fire_def split: if_splits)
    show ?thesis unfolding s'
      by (rule perform_latch [OF i l guarded_response [OF snd_at [OF i] p]])
  next
    case (Data i chunk)
    with f have i: "i < length (attempts s)"
      and s': "s' = perform cfg env now i (on_data chunk (attempts s ! i), Nothing) s"
      by (auto simp: fire_def split: if_splits)
    show ?thesis unfolding s'
      by (rule perform_latch [OF i l guarded_data [OF snd_at [OF i]]])
  next
    case (End i)
    with f have i: "i < length (attempts s)" and p: "res (attempts s ! i) \<noteq> None"
      and s': "s' = perform cfg env now i (on_end cfg env ((attempts s ! i)\<lparr>ended := True\<rparr>)) s"
      by (auto simp: fire_def split: if_splits)
    show ?thesis unfolding s'
      by (rule perform_latch [OF i l guarded_end [OF snd_at [OF i] p]])
  next
    case (Inflated i zerr d)
    with f have i: "i < length (attempts s)" and p: "inflating (attempts s ! i) \<noteq> None"
      and s': "s' = perform cfg env now i
                 (on_inflated zerr d ((attempts s ! i)\<lparr>inflating := None\<rparr>)) s"
      by (auto simp: fire_def split: if_splits)
    show ?thesis unfolding s'
      by (rule perform_latch [OF i l guarded_inflated [OF snd_at [OF i] p]])
  next
    case DownloadFinish
    with f have s': "s' = announce finish_listener on_download_finish (s\<lparr>sink_closed := True\<rparr>)"
      by (auto simp: fire_def split: if_splits)
    have "latched (s\<lparr>sink_closed := True\<rparr>)" using l by (simp add: latched_def tokens_def)
    then show ?thesis unfolding s'
      by (rule announce_latch) (simp_all add: guarded_finish finish_never_recurses)
  next
    case (DownloadError e)
    with n [of e] show ?thesis by simp
  next
    case Abort
    with f have s': "s' = announce aborter on_abort (s\<lparr>signal_aborted := True\<rparr>)"
      by (auto simp: fire_def split: if_splits)
    have "latched (s\<lparr>signal_aborted := True\<rparr>)" using l by (simp add: latched_def tokens_def)
    then show ?thesis unfolding s'
      by (rule announce_latch) (simp_all add: guarded_abort abort_never_recurses)
  qed
qed

lemma run_latch:
  assumes "latched s" "run cfg env s evs = Some s'"
    and "\<forall>p \<in> set evs. \<forall>e. snd p \<noteq> DownloadError e"
  shows "latched s'"
  using assms
proof (induction evs arbitrary: s)
  case Nil
  then show ?case by simp
next
  case (Cons p evs)
  obtain now ev where p: "p = (now, ev)" by (cases p)
  from Cons.prems(2) obtain s1 where s1: "fire cfg env now s ev = Some s1"
    "run cfg env s1 evs = Some s'"
    by (auto simp: p split: option.splits)
  have "latched s1"
    by (rule fire_latch [OF Cons.prems(1) s1(1)]) (use Cons.prems(3) p in auto)
  from Cons.IH [OF this s1(2)] Cons.prems(3) show ?case by simp
qed

lemma first_call_latched: "latched (first_call cfg env now u opts)"
proof -
  have "\<forall>a \<in> set (attempts idle). sound a" by (simp add: idle_def)
  from request_latch [OF this, of cfg env now u opts]
  show ?thesis by (simp add: first_call_def latched_def tokens_def idle_def)
qed

text \<open>
  The latch does hold on every other path: in a run in which the download stream reports
  no error, the callback is called at most once, and once it has been called no attempt
  is live.
\<close>

theorem single_delivery_without_stream_error:
  assumes "run cfg env (first_call cfg env t0 u opts) evs = Some s'"
    and "\<forall>p \<in> set evs. \<forall>e. snd p \<noteq> DownloadError e"
  shows "length (delivered s') \<le> 1
       \<and> (delivered s' \<noteq> [] \<longrightarrow> (\<forall>a \<in> set (attempts s'). callback_fired a))"
proof -
  have "latched s'" by (rule run_latch [OF first_call_latched assms])
  then have t: "tokens s' \<le> 1" by (simp add: latched_def)
  then have "length (delivered s') \<le> 1" by (simp add: tokens_def)
  moreover have "delivered s' \<noteq> [] \<longrightarrow> (\<forall>a \<in> set (attempts s'). callback_fired a)"
  proof
    assume "delivered s' \<noteq> []"
    then have "length (delivered s') \<ge> 1" by (cases "delivered s'") simp_all
    with t have "length (filter live (attempts s')) = 0"
      unfolding tokens_def by linarith
    then show "\<forall>a \<in> set (attempts s'). callback_fired a"
      by (simp add: filter_empty_conv live_def)
  qed
  ultimately show ?thesis by blast
qed

section \<open>Properties of the timing tracker\<close>

lemma exclude_num:
  assumes p: "\<And>k m. p k = Some m \<Longrightarrow> k \<noteq> tk \<Longrightarrow> \<exists>r. elapsed m = Num r"
    and ne: "a \<noteq> tk" "b \<noteq> tk"
    and k: "exclude a b p k = Some m" "k \<noteq> tk"
  shows "\<exists>r. elapsed m = Num r"
proof (cases "p a")
  case None
  then have "exclude a b p = p" by (simp add: exclude_def)
  with p k show ?thesis by simp
next
  case (Some ma)
  show ?thesis
  proof (cases "p b")
    case None
    then have "exclude a b p = p" by (simp add: exclude_def Some)
    with p k show ?thesis by simp
  next
    case (Some mb)
    obtain x y where xy: "elapsed ma = Num x" "elapsed mb = Num y"
      using p [OF \<open>p a = Some ma\<close> ne(1)] p [OF Some ne(2)] by auto
    have e: "exclude a b p = p(a \<mapsto> ma\<lparr>elapsed := Num (x - y)\<rparr>)"
      by (simp add: exclude_def Some \<open>p a = Some ma\<close> xy)
    show ?thesis
    proof (cases "k = a")
      case True
      with k e show ?thesis by auto
    next
      case False
      with k e have "p k = Some m" by simp
      with p k show ?thesis by simp
    qed
  qed
qed

lemma exclude_other: "k \<noteq> a \<Longrightarrow> exclude a b p k = p k"
  by (simp add: exclude_def split: option.splits)

lemma subtract_num:
  assumes p: "\<And>k m. p k = Some m \<Longrightarrow> k \<noteq> ''total'' \<Longrightarrow> \<exists>r. elapsed m = Num r"
    and k: "subtract_phases p k = Some m" "k \<noteq> ''total''"
  shows "\<exists>r. elapsed m = Num r"
proof -
  let ?p1 = "exclude ''decompress'' ''receive'' p"
  let ?p2 = "exclude ''receive'' ''wait'' ?p1"
  let ?p3 = "exclude ''wait'' ''send'' ?p2"
  let ?p4 = "exclude ''send'' ''connect'' ?p3"
  have 1: "\<And>k m. ?p1 k = Some m \<Longrightarrow> k \<noteq> ''total'' \<Longrightarrow> \<exists>r. elapsed m = Num r"
    by (rule exclude_num [where p = p and tk = "''total''"]) (use p in simp_all)
  have 2: "\<And>k m. ?p2 k = Some m \<Longrightarrow> k \<noteq> ''total'' \<Longrightarrow> \<exists>r. elapsed m = Num r"
    by (rule exclude_num [where p = ?p1 and tk = "''total''"]) (use 1 in simp_all)
  have 3: "\<And>k m. ?p3 k = Some m \<Longrightarrow> k \<noteq> ''total'' \<Longrightarrow> \<exists>r. elapsed m = Num r"
    by (rule exclude_num [where p = ?p2 and tk = "''total''"]) (use 2 in simp_all)
  have 4: "\<And>k m. ?p4 k = Some m \<Longrightarrow> k \<noteq> ''total'' \<Longrightarrow> \<exists>r. elapsed m = Num r"
    by (rule exclude_num [where p = ?p3 and tk = "''total''"]) (use 3 in simp_all)
  show ?thesis
    by (rule exclude_num [where p = ?p4 and tk = "''total''" and a = "''connect''" and b = "''dns''"])
      (use 4 k in \<open>simp_all add: subtract_phases_def\<close>)
qed

lemma subtract_total: "subtract_phases p ''total'' = p ''total''"
  by (simp add: subtract_phases_def exclude_other)

lemma clamp_metric_nonneg: "elapsed m = Num r \<Longrightarrow> nonneg (elapsed (clamp_metric m))"
  by (simp add: clamp_metric_def)

lemma clamp_metric_start: "start (clamp_metric m) = start m"
  by (simp add: clamp_metric_def)

lemma import_phase_nonneg:
  assumes "0 < os" "0 < ns" "nonneg (elapsed om)"
    and "case nm of None \<Rightarrow> True | Some m \<Rightarrow> nonneg (elapsed m)"
  shows "nonneg (elapsed (import_phase os ns nm om))"
proof -
  obtain e where e: "elapsed om = Num e" "0 \<le> e"
    using assms(3) by (cases "elapsed om") auto
  have q: "js_or0 (js_div (elapsed om) (js_div (Num os) (Num ns))) = Num (e / (os / ns))"
    using assms(1,2) by (simp add: e js_or0_def)
  have ge: "0 \<le> e / (os / ns)" using e assms(1,2) by simp
  show ?thesis
  proof (cases nm)
    case None
    then show ?thesis using ge assms(1,2) by (simp add: import_phase_def e js_or0_def Let_def)
  next
    case (Some m)
    then obtain c where c: "elapsed m = Num c" "0 \<le> c"
      using assms(4) by (cases "elapsed m") auto
    then show ?thesis using ge Some assms(1,2) by (simp add: import_phase_def e js_or0_def Let_def)
  qed
qed

lemma end_total_nonneg:
  assumes oth: "\<And>k m. perf Q k = Some m \<Longrightarrow> k \<noteq> totalKey Q \<Longrightarrow> nonneg (elapsed m)"
    and tot: "perf Q (totalKey Q) = Some t" "\<And>s. start t = Some s \<Longrightarrow> s \<le> now"
    and sc: "0 < scale Q"
  shows "all_nonneg (end_total now Q) \<and> scale (end_total now Q) = scale Q
      \<and> (\<forall>rt s'. perf (end_total now Q) (totalKey Q) = Some rt \<longrightarrow> start rt = Some s' \<longrightarrow> s' \<le> now)"
proof -
  define st where "st = (case start t of None \<Rightarrow> now | Some s \<Rightarrow> s)"
  have le: "st \<le> now" using tot(2) by (simp add: st_def split: option.splits)
  have R: "perf (end_total now Q) = (perf Q)(totalKey Q \<mapsto>
      \<lparr>start = Some st, finish = Some now, elapsed = Num ((now - st) * scale Q)\<rparr>)"
    by (simp add: end_total_def tot(1) st_def Let_def)
  have "0 \<le> (now - st) * scale Q" using le sc by simp
  then have "all_nonneg (end_total now Q)"
    unfolding all_nonneg_def R using oth by (auto split: if_splits)
  moreover have "scale (end_total now Q) = scale Q"
    by (simp add: end_total_def tot(1) Let_def)
  moreover have "\<forall>rt s'. perf (end_total now Q) (totalKey Q) = Some rt \<longrightarrow> start rt = Some s' \<longrightarrow> s' \<le> now"
    unfolding R using le by auto
  ultimately show ?thesis by blast
qed

lemma end_total_start:
  assumes "perf Q (totalKey Q) = Some t" "start t = Some s"
  shows "\<exists>rt. perf (end_total now Q) (totalKey Q) = Some rt \<and> start rt = Some s"
  using assms by (simp add: end_total_def Let_def)

lemma finalised_own:
  assumes rec: "recorded P" and tk: "totalKey P = ''total''"
    and k: "clamp_all (subtract_phases (perf P)) k = Some m" "k \<noteq> ''total''"
  shows "nonneg (elapsed m)"
proof -
  obtain m0 where m0: "subtract_phases (perf P) k = Some m0" "m = clamp_metric m0"
    using k(1) by (auto simp: clamp_all_def)
  have "\<exists>r. elapsed m0 = Num r"
    by (rule subtract_num [OF _ m0(1) k(2)]) (use rec tk in \<open>auto simp: recorded_def\<close>)
  then show ?thesis using m0(2) clamp_metric_nonneg by auto
qed

lemma finalised_total:
  assumes "perf P ''total'' = Some t"
  shows "clamp_all (subtract_phases (perf P)) ''total'' = Some (clamp_metric t)"
  using assms by (simp add: clamp_all_def subtract_total)

lemma finishPerf_step:
  assumes rec: "recorded P"
    and tk: "totalKey P = ''total''"
    and tot: "perf P ''total'' = Some t" "start t = Some s" "s \<le> now"
    and sc: "0 < scale P"
    and old: "case old_perf of None \<Rightarrow> True
              | Some old \<Rightarrow> all_nonneg old \<and> 0 < scale old \<and>
                  (\<forall>ot s'. perf old ''total'' = Some ot \<longrightarrow> start ot = Some s' \<longrightarrow> s' \<le> now)"
  shows "\<exists>R. finishPerf now P old_perf = Inr R \<and> all_nonneg R \<and> scale R = scale P
           \<and> (\<forall>rt s'. perf R ''total'' = Some rt \<longrightarrow> start rt = Some s' \<longrightarrow> s' \<le> now)"
proof -
  define P1 where "P1 = P\<lparr>perf := clamp_all (subtract_phases (perf P))\<rparr>"
  have own: "\<And>k m. perf P1 k = Some m \<Longrightarrow> k \<noteq> ''total'' \<Longrightarrow> nonneg (elapsed m)"
    using finalised_own [OF rec tk] by (simp add: P1_def)
  have t1: "perf P1 ''total'' = Some (clamp_metric t)"
    using finalised_total [OF tot(1)] by (simp add: P1_def)
  have tk1: "totalKey P1 = ''total''" and sc1: "scale P1 = scale P"
    by (simp_all add: P1_def tk)
  show ?thesis
  proof (cases old_perf)
    case None
    let ?Q = "count ''requests'' 1 P1"
    have fin: "finishPerf now P None = Inr (end_total now ?Q)"
      by (simp add: finishPerf_def P1_def Let_def)
    have "all_nonneg (end_total now ?Q) \<and> scale (end_total now ?Q) = scale ?Q
        \<and> (\<forall>rt s'. perf (end_total now ?Q) (totalKey ?Q) = Some rt \<longrightarrow> start rt = Some s' \<longrightarrow> s' \<le> now)"
    proof (rule end_total_nonneg)
      show "perf ?Q (totalKey ?Q) = Some (clamp_metric t)"
        by (simp add: count_def tk1 t1)
      show "0 < scale ?Q" by (simp add: count_def sc1 sc)
      show "\<And>s'. start (clamp_metric t) = Some s' \<Longrightarrow> s' \<le> now"
        using tot by (simp add: clamp_metric_start)
      show "\<And>k m. perf ?Q k = Some m \<Longrightarrow> k \<noteq> totalKey ?Q \<Longrightarrow> nonneg (elapsed m)"
        using own by (simp add: count_def tk1)
    qed
    moreover have "totalKey ?Q = ''total''" "scale ?Q = scale P"
      by (simp_all add: count_def tk1 sc1)
    ultimately show ?thesis using fin None by simp
  next
    case (Some old)
    from old Some have on: "all_nonneg old" and osc: "0 < scale old"
      and ost: "\<And>ot s'. perf old ''total'' = Some ot \<Longrightarrow> start ot = Some s' \<Longrightarrow> s' \<le> now"
      by auto
    obtain P2 where P2: "import_phases P1 old = Inr P2"
      and own2: "\<And>k m. perf P2 k = Some m \<Longrightarrow> k \<noteq> ''total'' \<Longrightarrow> nonneg (elapsed m)"
      and t2: "\<exists>t2. perf P2 ''total'' = Some t2 \<and> (\<forall>s'. start t2 = Some s' \<longrightarrow> s' \<le> now)"
      and k2: "totalKey P2 = ''total''" "scale P2 = scale P"
    proof (cases "perf old ''total''")
      case None
      show ?thesis
      proof (rule that [of P1])
        show "import_phases P1 old = Inr P1" by (simp add: import_phases_def tk1 None)
        show "\<exists>t2. perf P1 ''total'' = Some t2 \<and> (\<forall>s'. start t2 = Some s' \<longrightarrow> s' \<le> now)"
          using t1 tot by (simp add: clamp_metric_start)
      qed (use own tk1 sc1 in auto)
    next
      case (Some ot)
      let ?P2 = "P1\<lparr>perf := (\<lambda>k.
                      case perf old k of
                        None \<Rightarrow> perf P1 k
                      | Some om \<Rightarrow>
                          if k = totalKey P1 then Some ((clamp_metric t)\<lparr>start := start ot\<rparr>)
                          else Some (import_phase (scale old) (scale P1) (perf P1 k) om))\<rparr>"
      show ?thesis
      proof (rule that [of ?P2])
        show "import_phases P1 old = Inr ?P2"
          by (simp add: import_phases_def tk1 Some t1)
        show "\<exists>t2. perf ?P2 ''total'' = Some t2 \<and> (\<forall>s'. start t2 = Some s' \<longrightarrow> s' \<le> now)"
          using ost [OF Some] by (simp add: Some tk1)
        show "totalKey ?P2 = ''total''" "scale ?P2 = scale P" by (simp_all add: tk1 sc1)
        fix k m assume k: "perf ?P2 k = Some m" "k \<noteq> ''total''"
        show "nonneg (elapsed m)"
        proof (cases "perf old k")
          case None
          with k own show ?thesis by simp
        next
          case (Some om)
          have 1: "nonneg (elapsed om)" using on Some by (simp add: all_nonneg_def)
          have 2: "case perf P1 k of None \<Rightarrow> True | Some m \<Rightarrow> nonneg (elapsed m)"
            using own k(2) by (simp split: option.splits)
          have "m = import_phase (scale old) (scale P1) (perf P1 k) om"
            using k Some by (simp add: tk1)
          then show ?thesis
            using import_phase_nonneg [OF osc _ 1 2, of "scale P1"] sc sc1 by simp
        qed
      qed
    qed
    let ?Q = "count ''requests'' 1 (import_counters P2 old)"
    have fin: "finishPerf now P (Some old) = Inr (end_total now ?Q)"
      using P2 by (simp add: finishPerf_def P1_def Let_def)
    obtain t2 where t2': "perf P2 ''total'' = Some t2" "\<And>s'. start t2 = Some s' \<Longrightarrow> s' \<le> now"
      using t2 by auto
    have "all_nonneg (end_total now ?Q) \<and> scale (end_total now ?Q) = scale ?Q
        \<and> (\<forall>rt s'. perf (end_total now ?Q) (totalKey ?Q) = Some rt \<longrightarrow> start rt = Some s' \<longrightarrow> s' \<le> now)"
    proof (rule end_total_nonneg)
      show "perf ?Q (totalKey ?Q) = Some t2"
        by (simp add: count_def import_counters_def k2 t2')
      show "0 < scale ?Q" by (simp add: count_def import_counters_def k2 sc)
      show "\<And>s'. start t2 = Some s' \<Longrightarrow> s' \<le> now" by (rule t2')
      show "\<And>k m. perf ?Q k = Some m \<Longrightarrow> k \<noteq> totalKey ?Q \<Longrightarrow> nonneg (elapsed m)"
        using own2 by (simp add: count_def import_counters_def k2)
    qed
    moreover have "totalKey ?Q = ''total''" "scale ?Q = scale P"
      by (simp_all add: count_def import_counters_def k2)
    ultimately show ?thesis using fin Some by simp
  qed
qed


lemma finish_chain_nonneg:
  assumes "\<forall>a\<in>set as. attempt_ok a" "sorted (map fst as)"
    and "case old_perf of None \<Rightarrow> True
         | Some old \<Rightarrow> all_nonneg old \<and> 0 < scale old \<and>
             (\<forall>ot s'. perf old ''total'' = Some ot \<longrightarrow> start ot = Some s' \<longrightarrow>
                (\<forall>a\<in>set as. s' \<le> fst a))"
  shows "\<exists>R. finish_chain old_perf as = Inr R \<and> (\<forall>Q. R = Some Q \<longrightarrow> all_nonneg Q)
           \<and> (as \<noteq> [] \<longrightarrow> R \<noteq> None)"
  using assms
proof (induction as arbitrary: old_perf)
  case Nil
  then show ?case by (simp split: option.splits)
next
  case (Cons a rest)
  obtain now P where a: "a = (now, P)" by (cases a)
  from Cons.prems(1) a have ok: "recorded P" "totalKey P = ''total''" "0 < scale P"
    and "\<exists>t s. perf P ''total'' = Some t \<and> start t = Some s \<and> s \<le> now"
    by (auto simp: attempt_ok_def)
  then obtain t s where t: "perf P ''total'' = Some t" "start t = Some s" "s \<le> now" by blast
  have old: "case old_perf of None \<Rightarrow> True
       | Some old \<Rightarrow> all_nonneg old \<and> 0 < scale old \<and>
           (\<forall>ot s'. perf old ''total'' = Some ot \<longrightarrow> start ot = Some s' \<longrightarrow> s' \<le> now)"
    using Cons.prems(3) a by (auto split: option.splits)
  from finishPerf_step [OF ok(1,2) t ok(3) old]
  obtain R where R: "finishPerf now P old_perf = Inr R" "all_nonneg R" "scale R = scale P"
    "\<And>rt s'. perf R ''total'' = Some rt \<Longrightarrow> start rt = Some s' \<Longrightarrow> s' \<le> now"
    by blast
  have later: "\<forall>b\<in>set rest. now \<le> fst b"
    using Cons.prems(2) a by auto
  have "\<exists>R'. finish_chain (Some R) rest = Inr R' \<and> (\<forall>Q. R' = Some Q \<longrightarrow> all_nonneg Q)
           \<and> (rest \<noteq> [] \<longrightarrow> R' \<noteq> None)"
  proof (rule Cons.IH)
    show "\<forall>a\<in>set rest. attempt_ok a" using Cons.prems(1) by simp
    show "sorted (map fst rest)" using Cons.prems(2) by simp
    show "case Some R of None \<Rightarrow> True
       | Some old \<Rightarrow> all_nonneg old \<and> 0 < scale old \<and>
           (\<forall>ot s'. perf old ''total'' = Some ot \<longrightarrow> start ot = Some s' \<longrightarrow>
              (\<forall>a\<in>set rest. s' \<le> fst a))"
      using R ok(3) later by (auto dest!: R(4) intro: order_trans)
  qed
  then obtain R' where R': "finish_chain (Some R) rest = Inr R'"
    "\<forall>Q. R' = Some Q \<longrightarrow> all_nonneg Q" "rest \<noteq> [] \<longrightarrow> R' \<noteq> None" by blast
  show ?case
  proof (cases rest)
    case Nil
    with R a show ?thesis by simp
  next
    case (Cons b bs)
    with R R' a show ?thesis by simp
  qed
qed

text \<open>
  Claim C7. Along a chain of attempts of one logical request (a single attempt is the
  chain of length one), each with the phases that were recorded, of either sign and in any
  order of their end offsets, \<^verbatim>\<open>finishPerf\<close> returns a timing record and every phase of the
  record returned last has an elapsed value that is a number and at least 0. The clock
  does not run backwards: each attempt ends no earlier than its total phase began and no
  earlier than the attempt before it.
\<close>

theorem finishPerf_nonneg:
  assumes "as \<noteq> []" "\<forall>a\<in>set as. attempt_ok a" "sorted (map fst as)"
  shows "\<exists>R. finish_chain None as = Inr (Some R) \<and> all_nonneg R"
  using finish_chain_nonneg [OF assms(2,3), of None] assms(1) by auto

theorem finishPerf_nonneg_witness:
  "(\<exists>R. finish_chain None [(120, jitter_attempt), (130, second_attempt)] = Inr (Some R)
        \<and> all_nonneg R)
   \<and> js_sub (Num 5000) (Num 9000) = Num (- 4000) \<and> own_elapsed jitter_attempt ''wait'' = 0"
proof -
  have 1: "\<forall>a\<in>set [(120, jitter_attempt), (130, second_attempt)]. attempt_ok a"
    by (auto simp: attempt_ok_def recorded_def jitter_attempt_def second_attempt_def
          split: if_splits)
  have 2: "sorted (map fst [(120 :: real, jitter_attempt), (130, second_attempt)])"
    by simp
  have 3: "own_elapsed jitter_attempt ''wait'' = 0"
    by (simp add: own_elapsed_def jitter_attempt_def subtract_phases_def exclude_def
          clamp_all_def clamp_metric_def)
  show ?thesis
    using finishPerf_nonneg [OF _ 1 2] 3 by simp
qed


lemma import_phase_elapsed:
  assumes "os \<noteq> 0" "ns \<noteq> 0" "elapsed om = Num e"
  shows "elapsed (import_phase os ns nm om) =
           Num ((case nm of None \<Rightarrow> 0 | Some m \<Rightarrow> (case elapsed m of Num r \<Rightarrow> r | _ \<Rightarrow> 0))
                + e * ns / os)"
proof -
  have q: "js_or0 (js_div (Num e) (js_div (Num os) (Num ns))) = Num (e * ns / os)"
    using assms(1,2) by (simp add: js_or0_def)
  show ?thesis
  proof (cases nm)
    case None
    then show ?thesis by (simp add: import_phase_def Let_def assms(3) q del: js_div.simps)
  next
    case (Some m)
    then show ?thesis
      by (cases "elapsed m") (simp_all add: import_phase_def Let_def assms(3) q del: js_div.simps)
  qed
qed

lemma finishPerf_Some_eq:
  assumes tk: "totalKey P = ''total''" and t: "perf P ''total'' = Some t"
    and ot: "perf old ''total'' = Some ot"
  shows "finishPerf now P (Some old) =
           Inr (end_total now (count ''requests'' 1 (import_counters
             (P\<lparr>perf := (\<lambda>k. case perf old k of
                     None \<Rightarrow> clamp_all (subtract_phases (perf P)) k
                   | Some om \<Rightarrow>
                       if k = ''total'' then Some ((clamp_metric t)\<lparr>start := start ot\<rparr>)
                       else Some (import_phase (scale old) (scale P)
                                   (clamp_all (subtract_phases (perf P)) k) om))\<rparr>) old)))"
  by (simp add: finishPerf_def Let_def import_phases_def tk ot finalised_total [OF t]
        cong: option.case_cong if_cong)

lemma merge_total_start:
  assumes tk: "totalKey P = ''total''" and t: "perf P ''total'' = Some t"
    and ot: "perf old ''total'' = Some ot" "start ot = Some s0"
  shows "\<exists>R rt. finishPerf now P (Some old) = Inr R \<and> perf R ''total'' = Some rt
           \<and> start rt = Some s0"
  by (simp add: finishPerf_Some_eq [OF tk t ot(1)] end_total_def count_def import_counters_def
        tk ot Let_def)

lemma merge_phase:
  assumes tk: "totalKey P = ''total''" and t: "perf P ''total'' = Some t"
    and ot: "perf old ''total'' = Some ot"
    and sc: "scale P \<noteq> 0" "scale old \<noteq> 0"
    and k: "k \<noteq> ''total''" "perf old k = Some om" "elapsed om = Num e"
  shows "\<exists>R m. finishPerf now P (Some old) = Inr R \<and> perf R k = Some m
           \<and> elapsed m = Num (own_elapsed P k + e * scale P / scale old)"
  using k(1)
  by (simp add: finishPerf_Some_eq [OF tk t ot(1)] end_total_def count_def import_counters_def
        tk ot k(2) Let_def import_phase_elapsed [OF sc(2,1) k(3)] own_elapsed_def)

lemma merge_counter:
  assumes tk: "totalKey P = ''total''" and t: "perf P ''total'' = Some t"
    and ot: "perf old ''total'' = Some ot"
    and k: "counters old k = Some oc"
  shows "\<exists>R. finishPerf now P (Some old) = Inr R \<and> counters R k =
           Some ((case counters P k of None \<Rightarrow> 0 | Some c \<Rightarrow> c) + oc
                 + (if k = ''requests'' then 1 else 0))"
  using k
  by (cases "k = ''requests''")
    (auto simp: finishPerf_Some_eq [OF tk t ot(1)] end_total_def count_def import_counters_def
        tk ot Let_def split: option.splits)

lemma finish_chain_total_start:
  assumes "\<forall>a\<in>set as. attempt_ok a" "perf old ''total'' = Some ot" "start ot = Some s0"
  shows "\<exists>R. finish_chain (Some old) as = Inr (Some R) \<and> total_start R = Some s0"
  using assms
proof (induction as arbitrary: old ot)
  case Nil
  then show ?case by (simp add: total_start_def)
next
  case (Cons a rest)
  obtain now P where a: "a = (now, P)" by (cases a)
  from Cons.prems(1) a obtain t where tk: "totalKey P = ''total''" and t: "perf P ''total'' = Some t"
    by (auto simp: attempt_ok_def)
  from merge_total_start [OF tk t Cons.prems(2,3)]
  obtain R rt where R: "finishPerf now P (Some old) = Inr R" "perf R ''total'' = Some rt"
    "start rt = Some s0" by blast
  have "\<exists>R'. finish_chain (Some R) rest = Inr (Some R') \<and> total_start R' = Some s0"
    by (rule Cons.IH [OF _ R(2,3)]) (use Cons.prems(1) in simp)
  then show ?case using R(1) a by simp
qed

text \<open>
  Claim C8. When \<^verbatim>\<open>finishPerf\<close> is given the finished record of the previous attempt, the
  record it returns has the start of the total phase of the previous record; every other
  phase of the previous record is present with the new tracker's own value plus the old
  value times the new scale over the old scale; every counter of the previous record is
  the sum of both counters, plus 1 for the counter \<^verbatim>\<open>requests\<close>, which counts this attempt.
  The start of the total phase stays the same through every further attempt, so it is the
  start of the earliest attempt.
\<close>

theorem finishPerf_merge:
  assumes tk: "totalKey P = ''total''" and t: "perf P ''total'' = Some t"
    and ot: "perf old ''total'' = Some ot" "start ot = Some s0"
    and sc: "scale P \<noteq> 0" "scale old \<noteq> 0"
  shows "\<exists>R. finishPerf now P (Some old) = Inr R
     \<and> total_start R = Some s0
     \<and> (\<forall>k om e. k \<noteq> ''total'' \<and> perf old k = Some om \<and> elapsed om = Num e \<longrightarrow>
           (\<exists>m. perf R k = Some m \<and>
                elapsed m = Num (own_elapsed P k + e * scale P / scale old)))
     \<and> (\<forall>k oc. counters old k = Some oc \<longrightarrow>
           counters R k = Some ((case counters P k of None \<Rightarrow> 0 | Some c \<Rightarrow> c) + oc
                               + (if k = ''requests'' then 1 else 0)))
     \<and> (\<forall>as. (\<forall>a\<in>set as. attempt_ok a) \<longrightarrow>
           (\<exists>R'. finish_chain (Some R) as = Inr (Some R') \<and> total_start R' = Some s0))"
proof -
  obtain R rt where R: "finishPerf now P (Some old) = Inr R" "perf R ''total'' = Some rt"
    "start rt = Some s0"
    using merge_total_start [OF tk t ot] by blast
  have 1: "total_start R = Some s0" using R by (simp add: total_start_def)
  have 2: "\<forall>k om e. k \<noteq> ''total'' \<and> perf old k = Some om \<and> elapsed om = Num e \<longrightarrow>
           (\<exists>m. perf R k = Some m \<and>
                elapsed m = Num (own_elapsed P k + e * scale P / scale old))"
    using merge_phase [OF tk t ot(1) sc, of _ _ _ now] R(1) by fastforce
  have 3: "\<forall>k oc. counters old k = Some oc \<longrightarrow>
           counters R k = Some ((case counters P k of None \<Rightarrow> 0 | Some c \<Rightarrow> c) + oc
                               + (if k = ''requests'' then 1 else 0))"
    using merge_counter [OF tk t ot(1), of _ _ now] R(1) by fastforce
  have 4: "\<forall>as. (\<forall>a\<in>set as. attempt_ok a) \<longrightarrow>
           (\<exists>R'. finish_chain (Some R) as = Inr (Some R') \<and> total_start R' = Some s0)"
    using finish_chain_total_start [OF _ R(2,3)] by blast
  from R(1) 1 2 3 4 show ?thesis by blast
qed

theorem finishPerf_merge_witness:
  "\<exists>R. finishPerf 130 second_attempt (Some finished_first) = Inr R
     \<and> total_start R = Some 100
     \<and> map_option elapsed (perf R ''send'') = Some (Num 11000)
     \<and> map_option elapsed (perf R ''wait'') = Some (Num 5000)
     \<and> counters R ''requests'' = Some 2 \<and> counters R ''retries'' = Some 1"
proof -
  have tk: "totalKey second_attempt = ''total''"
    and t: "perf second_attempt ''total'' = Some \<lparr>start = Some 120, finish = None, elapsed = Undefined\<rparr>"
    and sc: "scale second_attempt \<noteq> 0" "scale finished_first \<noteq> 0"
    and ot: "perf finished_first ''total'' = Some \<lparr>start = Some 100, finish = Some 120, elapsed = Num 20000\<rparr>"
    by (simp_all add: second_attempt_def finished_first_def)
  have ow: "own_elapsed second_attempt ''send'' = 2000" "own_elapsed second_attempt ''wait'' = 5000"
    by (simp_all add: own_elapsed_def second_attempt_def subtract_phases_def exclude_def
          clamp_all_def clamp_metric_def)
  from finishPerf_merge [OF tk t ot _ sc, of 100 130]
  obtain R where R: "finishPerf 130 second_attempt (Some finished_first) = Inr R"
    "total_start R = Some 100"
    "\<And>k om e. k \<noteq> ''total'' \<Longrightarrow> perf finished_first k = Some om \<Longrightarrow> elapsed om = Num e \<Longrightarrow>
           (\<exists>m. perf R k = Some m \<and>
                elapsed m = Num (own_elapsed second_attempt k + e * scale second_attempt / scale finished_first))"
    "\<And>k oc. counters finished_first k = Some oc \<Longrightarrow>
           counters R k = Some ((case counters second_attempt k of None \<Rightarrow> 0 | Some c \<Rightarrow> c) + oc
                               + (if k = ''requests'' then 1 else 0))"
    by auto
  have "map_option elapsed (perf R ''send'') = Some (Num 11000)"
    using R(3) [of "''send''" "\<lparr>start = Some 100, finish = Some 109, elapsed = Num 9000\<rparr>" 9000] ow
    by (auto simp: finished_first_def second_attempt_def)
  moreover have "map_option elapsed (perf R ''wait'') = Some (Num 5000)"
    using R(3) [of "''wait''" "\<lparr>start = Some 100, finish = Some 105, elapsed = Num 0\<rparr>" 0] ow
    by (auto simp: finished_first_def second_attempt_def)
  moreover have "counters R ''requests'' = Some 2" "counters R ''retries'' = Some 1"
    using R(4) [of "''requests''" 1] R(4) [of "''retries''" 1]
    by (simp_all add: finished_first_def second_attempt_def)
  ultimately show ?thesis using R(1,2) by blast
qed
section \<open>Properties of the address cache\<close>










end
